theory Spec2Isabelle
  imports Main "HOL-Library.Char_ord" "HOL-Library.List_Lexorder" "HOL-Library.AList"
begin

section \<open>JavaScript values and string primitives\<close>

text \<open>
  Strings are lists of code units (\<^typ>\<open>string\<close>).  The string methods the scripts call
  are written out: \<open>s.startsWith(p)\<close>, \<open>s.endsWith(p)\<close>, \<open>s.split(c)\<close> for a
  one-character separator, \<open>xs.join(sep)\<close>, and \<open>s.replaceAll('\\', '/')\<close>.
  \<open>s.slice(n)\<close> is \<^term>\<open>drop n s\<close> and \<open>s.slice(0, -2)\<close> is
  \<^term>\<open>take (length s - 2) s\<close>.
\<close>

definition startsWith :: "string \<Rightarrow> string \<Rightarrow> bool" where
  "startsWith s p \<longleftrightarrow> take (length p) s = p"

definition endsWith :: "string \<Rightarrow> string \<Rightarrow> bool" where
  "endsWith s p \<longleftrightarrow> length p \<le> length s \<and> drop (length s - length p) s = p"

fun js_split :: "char \<Rightarrow> string \<Rightarrow> string list" where
  "js_split c [] = [[]]"
| "js_split c (x # xs) =
     (if x = c then [] # js_split c xs
      else (case js_split c xs of [] \<Rightarrow> [[x]] | y # ys \<Rightarrow> (x # y) # ys))"

fun js_join :: "string \<Rightarrow> string list \<Rightarrow> string" where
  "js_join sep [] = []"
| "js_join sep [x] = x"
| "js_join sep (x # y # ys) = x @ sep @ js_join sep (y # ys)"

definition backslashesToSlashes :: "string \<Rightarrow> string" where
  "backslashesToSlashes s = map (\<lambda>c. if c = CHR 0x5C then CHR ''/'' else c) s"

text \<open>
  Values read back from JSON files (\<open>JSON.parse\<close>).  The numbers this program writes and
  compares are integers (schema versions, byte counts, file counts).  An object is the list
  of its members in order.
\<close>

datatype json =
    JNull
  | JBool bool
  | JNum int
  | JStr string
  | JArr "json list"
  | JObj "(string \<times> json) list"

section \<open>Alias rules: \<open>applySimpleAlias\<close>\<close>

record aliasRule =
  pattern :: string
  targets :: "json list"

fun applySimpleAlias :: "string \<Rightarrow> aliasRule list \<Rightarrow> string option" where
  "applySimpleAlias spec [] = None"
| "applySimpleAlias spec (r # rs) =
     (if \<not> endsWith (pattern r) ''/*'' then applySimpleAlias spec rs
      else
        let prefix = take (length (pattern r) - 2) (pattern r) in
        if \<not> startsWith spec (prefix @ ''/'') then applySimpleAlias spec rs
        else
          let rest = drop (length prefix + 1) spec in
          (case targets r of
             JStr firstTarget # _ \<Rightarrow>
               if firstTarget = ''./*'' then Some rest
               else if endsWith firstTarget ''/*''
                 then Some (take (length firstTarget - 2) firstTarget @ ''/'' @ rest)
               else applySimpleAlias spec rs
           | _ \<Rightarrow> applySimpleAlias spec rs))"

section \<open>Package identity of an external specifier: \<open>externalPackageName\<close>\<close>

definition externalPackageName :: "string \<Rightarrow> string" where
  "externalPackageName spec =
     (if startsWith spec ''@'' then
        (let parts = js_split CHR ''/'' spec in
         if length parts \<ge> 2 then parts ! 0 @ ''/'' @ parts ! 1 else spec)
      else
        (case js_split CHR ''/'' spec of [] \<Rightarrow> spec | p # _ \<Rightarrow> p))"

section \<open>Feature classification: the two \<open>featureFromPath\<close> functions\<close>

text \<open>The index generator's \<open>featureFromPath\<close>.\<close>

definition featureFromPath :: "string \<Rightarrow> string" where
  "featureFromPath filePath =
     (let p = backslashesToSlashes filePath in
      if startsWith p ''pages/'' then ''route/page''
      else if startsWith p ''components/'' then ''ui/component''
      else if startsWith p ''utils/'' then ''utility''
      else if startsWith p ''worker/'' then ''worker/backend''
      else if p = ''App.tsx'' \<or> p = ''AppShell.tsx'' \<or> p = ''index.tsx'' then ''app/entry''
      else ''module'')"

text \<open>The function of the same name in \<open>describe-files.mjs\<close>.\<close>

definition featureFromPath_describe :: "string \<Rightarrow> string" where
  "featureFromPath_describe filePath =
     (let p = backslashesToSlashes filePath in
      if startsWith p ''pages/'' then ''route/page''
      else if startsWith p ''components/'' then ''ui/component''
      else if startsWith p ''utils/'' then ''utility''
      else if startsWith p ''worker/'' then ''worker/backend''
      else if p = ''App.tsx'' \<or> p = ''AppShell.tsx'' then ''app/shell''
      else ''module'')"

subsection \<open>The alias rule as the specification words it\<close>

text \<open>
  The prefix of a rule is its pattern without the final \<open>/*\<close>; a rule's prefix matches a
  specifier that starts with the prefix followed by a slash, and the captured suffix is what
  follows.  \<open>substituteFirst\<close> rewrites with the first candidate target only:
  the passthrough target \<open>./*\<close> gives the suffix, a target ending in \<open>/*\<close>
  gives the target without its \<open>*\<close> followed by the suffix, and any other first target
  (none, not a string, no wildcard) gives nothing.
\<close>

definition aliasPrefix :: "aliasRule \<Rightarrow> string" where
  "aliasPrefix r = take (length (pattern r) - 2) (pattern r)"

definition prefixMatches :: "string \<Rightarrow> aliasRule \<Rightarrow> bool" where
  "prefixMatches spec r \<longleftrightarrow>
     endsWith (pattern r) ''/*'' \<and> startsWith spec (aliasPrefix r @ ''/'')"

definition capturedSuffix :: "string \<Rightarrow> aliasRule \<Rightarrow> string" where
  "capturedSuffix spec r = drop (length (aliasPrefix r) + 1) spec"

definition substituteFirst :: "string \<Rightarrow> aliasRule \<Rightarrow> string option" where
  "substituteFirst spec r =
     (case targets r of
        JStr t # _ \<Rightarrow>
          if t = ''./*'' then Some (capturedSuffix spec r)
          else if endsWith t ''/*''
            then Some (take (length t - 2) t @ ''/'' @ capturedSuffix spec r)
          else None
      | _ \<Rightarrow> None)"

text \<open>
  The specification's reading of \<open>applyAlias\<close>: the first rule whose prefix matches
  decides, whatever its first target is.
\<close>

definition applyAlias_spec :: "string \<Rightarrow> aliasRule list \<Rightarrow> string option" where
  "applyAlias_spec spec rules =
     (case find (prefixMatches spec) rules of
        None \<Rightarrow> None
      | Some r \<Rightarrow> substituteFirst spec r)"

definition firstTargetOnly :: "aliasRule \<Rightarrow> aliasRule" where
  "firstTargetOnly r = r\<lparr>targets := take 1 (targets r)\<rparr>"

section \<open>The platform: Node's \<open>path\<close> module and the file system\<close>

text \<open>
  The scripts call Node's \<open>path\<close> module (\<open>path.sep\<close>, \<open>path.join\<close> of two
  arguments, \<open>path.resolve\<close> of two arguments, \<open>path.relative\<close>, \<open>path.dirname\<close>,
  \<open>path.extname\<close>, \<open>path.basename\<close>).  It belongs to the platform, not to the
  repository: the functions below take it as a parameter, and the theorems hold for every
  value of it.  File existence (\<open>fs.access\<close> succeeds) is a predicate on absolute paths.
\<close>

record nodePath =
  path_sep :: char
  path_join :: "string \<Rightarrow> string \<Rightarrow> string"
  path_resolve :: "string \<Rightarrow> string \<Rightarrow> string"
  path_relative :: "string \<Rightarrow> string \<Rightarrow> string"
  path_dirname :: "string \<Rightarrow> string"
  path_extname :: "string \<Rightarrow> string"
  path_basename :: "string \<Rightarrow> string"

definition toPosixPath :: "nodePath \<Rightarrow> string \<Rightarrow> string" where
  "toPosixPath P filePath = js_join ''/'' (js_split (path_sep P) filePath)"

subsection \<open>A POSIX instance, for running the model on concrete inputs\<close>

text \<open>
  Written after the documented behaviour of Node's POSIX \<open>path\<close> functions: segments
  are separated by slashes, \<open>.\<close> and empty segments vanish, \<open>..\<close> removes the segment
  before it.  The second argument of \<open>posix_resolve\<close> is resolved against an absolute
  first argument.
\<close>

fun normalizeSegments :: "bool \<Rightarrow> string list \<Rightarrow> string list \<Rightarrow> string list" where
  "normalizeSegments allowAbove acc [] = rev acc"
| "normalizeSegments allowAbove acc (s # ss) =
     (if s = [] \<or> s = ''.'' then normalizeSegments allowAbove acc ss
      else if s = ''..'' then
        (case acc of
           [] \<Rightarrow> normalizeSegments allowAbove (if allowAbove then [''..''] else []) ss
         | a # as \<Rightarrow>
             if a = ''..'' then normalizeSegments allowAbove (''..'' # acc) ss
             else normalizeSegments allowAbove as ss)
      else normalizeSegments allowAbove (s # acc) ss)"

definition posix_normalize :: "string \<Rightarrow> string" where
  "posix_normalize p =
     (let isAbs = startsWith p ''/'';
          body = js_join ''/'' (normalizeSegments (\<not> isAbs) [] (js_split CHR ''/'' p));
          body1 = (if body = [] \<and> \<not> isAbs then ''.'' else body);
          body2 = (if body1 \<noteq> [] \<and> endsWith p ''/'' then body1 @ ''/'' else body1)
      in if isAbs then ''/'' @ body2 else body2)"

definition posix_join :: "string \<Rightarrow> string \<Rightarrow> string" where
  "posix_join a b =
     (let joined = js_join ''/'' (filter (\<lambda>s. s \<noteq> []) [a, b])
      in if joined = [] then ''.'' else posix_normalize joined)"

definition posix_resolve :: "string \<Rightarrow> string \<Rightarrow> string" where
  "posix_resolve from to =
     ''/'' @ js_join ''/''
       (normalizeSegments False []
          (js_split CHR ''/'' (if startsWith to ''/'' then to else from @ ''/'' @ to)))"

fun dropCommonPrefix :: "string list \<Rightarrow> string list \<Rightarrow> string list \<times> string list" where
  "dropCommonPrefix (x # xs) (y # ys) =
     (if x = y then dropCommonPrefix xs ys else (x # xs, y # ys))"
| "dropCommonPrefix xs ys = (xs, ys)"

definition posix_relative :: "string \<Rightarrow> string \<Rightarrow> string" where
  "posix_relative from to =
     (case dropCommonPrefix
             (normalizeSegments False [] (js_split CHR ''/'' from))
             (normalizeSegments False [] (js_split CHR ''/'' to)) of
        (up, down) \<Rightarrow> js_join ''/'' (map (\<lambda>_. ''..'') up @ down))"

definition stripTrailingSlashes :: "string \<Rightarrow> string" where
  "stripTrailingSlashes p = rev (dropWhile (\<lambda>c. c = CHR ''/'') (rev p))"

definition lastSegment :: "string \<Rightarrow> string" where
  "lastSegment p = rev (takeWhile (\<lambda>c. c \<noteq> CHR ''/'') (rev (stripTrailingSlashes p)))"

definition posix_basename :: "string \<Rightarrow> string" where
  "posix_basename p = lastSegment p"

definition posix_dirname :: "string \<Rightarrow> string" where
  "posix_dirname p =
     (let q = stripTrailingSlashes p in
      if q = [] then (if p = [] then ''.'' else ''/'')
      else if CHR ''/'' \<notin> set q then ''.''
      else
        (let d = stripTrailingSlashes (rev (dropWhile (\<lambda>c. c \<noteq> CHR ''/'') (rev q)))
         in if d = [] then ''/'' else d))"

definition posix_extname :: "string \<Rightarrow> string" where
  "posix_extname p =
     (let b = lastSegment p;
          afterDot = rev (takeWhile (\<lambda>c. c \<noteq> CHR ''.'') (rev b))
      in if CHR ''.'' \<notin> set b \<or> b = ''..'' \<or> length afterDot + 1 = length b then []
         else CHR ''.'' # afterDot)"

definition posixPath :: nodePath where
  "posixPath =
     \<lparr>path_sep = CHR ''/'', path_join = posix_join, path_resolve = posix_resolve,
      path_relative = posix_relative, path_dirname = posix_dirname,
      path_extname = posix_extname, path_basename = posix_basename\<rparr>"

section \<open>The import resolver: \<open>resolveLocalImport\<close>\<close>

definition RESOLVE_EXTENSIONS :: "string list" where
  "RESOLVE_EXTENSIONS =
     [''.ts'', ''.tsx'', ''.js'', ''.jsx'', ''.mjs'', ''.cjs'', ''.json'', ''.css'']"

text \<open>
  A JavaScript condition on a value that is a string or \<open>null\<close> holds for a string that
  is not empty.
\<close>

definition truthy :: "string option \<Rightarrow> bool" where
  "truthy v \<longleftrightarrow> (case v of None \<Rightarrow> False | Some s \<Rightarrow> s \<noteq> [])"

text \<open>
  The first lines of \<open>resolveLocalImport\<close>: the candidate path of a specifier, relative
  to the repository root, or \<open>null\<close>.
\<close>

definition candidateRel :: "nodePath \<Rightarrow> string \<Rightarrow> string \<Rightarrow> aliasRule list \<Rightarrow> string option" where
  "candidateRel P importerRel spec aliasPaths =
     (if startsWith spec ''./'' \<or> startsWith spec ''../''
        then Some (path_join P (path_dirname P importerRel) spec)
      else if startsWith spec ''/'' then Some (drop 1 spec)
      else
        (let aliasRel = applySimpleAlias spec aliasPaths
         in if truthy aliasRel then aliasRel else None))"

definition resolveLocalImport ::
  "nodePath \<Rightarrow> (string \<Rightarrow> bool) \<Rightarrow> string \<Rightarrow> string \<Rightarrow> string \<Rightarrow> aliasRule list \<Rightarrow> string option"
where
  "resolveLocalImport P pathExists projectRootAbs importerRel spec aliasPaths =
     (let candidate = candidateRel P importerRel spec aliasPaths in
      if \<not> truthy candidate then None
      else
        let candidateAbsNoExt = path_resolve P projectRootAbs (the candidate);
            hasExt = (path_extname P candidateAbsNoExt \<noteq> []);
            tryPaths =
              (if hasExt then [candidateAbsNoExt]
               else map (\<lambda>ext. candidateAbsNoExt @ ext) RESOLVE_EXTENSIONS
                  @ map (\<lambda>ext. path_join P candidateAbsNoExt (''index'' @ ext))
                      RESOLVE_EXTENSIONS)
        in (case find pathExists tryPaths of
              None \<Rightarrow> None
            | Some absPath \<Rightarrow> Some (toPosixPath P (path_relative P projectRootAbs absPath))))"

text \<open>
  The classification of one specifier in the graph loop of \<open>generateIndex\<close>: a resolved
  path, a raw specifier that is local but resolves to nothing, or a package identity.
\<close>

datatype edge = LOCAL string | LOCAL_UNRESOLVED string | EXTERNAL string

definition classifySpec ::
  "nodePath \<Rightarrow> (string \<Rightarrow> bool) \<Rightarrow> string \<Rightarrow> string \<Rightarrow> aliasRule list \<Rightarrow> string \<Rightarrow> edge"
where
  "classifySpec P pathExists projectRootAbs relPath aliasPaths spec =
     (let resolved = resolveLocalImport P pathExists projectRootAbs relPath spec aliasPaths in
      if truthy resolved then LOCAL (the resolved)
      else if startsWith spec ''./'' \<or> startsWith spec ''../'' \<or> startsWith spec ''/''
              \<or> truthy (applySimpleAlias spec aliasPaths)
        then LOCAL_UNRESOLVED spec
      else EXTERNAL (externalPackageName spec))"

text \<open>The probe order of the specification, written out for a candidate \<open>c\<close>.\<close>

definition probePaths :: "nodePath \<Rightarrow> string \<Rightarrow> string list" where
  "probePaths P c =
     [c @ ''.ts'', c @ ''.tsx'', c @ ''.js'', c @ ''.jsx'', c @ ''.mjs'', c @ ''.cjs'',
      c @ ''.json'', c @ ''.css'',
      path_join P c ''index.ts'', path_join P c ''index.tsx'', path_join P c ''index.js'',
      path_join P c ''index.jsx'', path_join P c ''index.mjs'', path_join P c ''index.cjs'',
      path_join P c ''index.json'', path_join P c ''index.css'']"

section \<open>JavaScript objects, sets and conditions\<close>

text \<open>
  \<open>v?.k\<close> on a value read from JSON: the member of an object, \<open>undefined\<close>
  (\<^term>\<open>None\<close>) on anything else.  The keys of an object are distinct.
\<close>

definition jget :: "json \<Rightarrow> string \<Rightarrow> json option" where
  "jget v k = (case v of JObj kvs \<Rightarrow> map_of kvs k | _ \<Rightarrow> None)"

definition oget :: "json option \<Rightarrow> string \<Rightarrow> json option" where
  "oget v k = (case v of None \<Rightarrow> None | Some j \<Rightarrow> jget j k)"

text \<open>Truthiness, \<open>typeof v === 'object'\<close> and \<open>a === b\<close> on JSON values.\<close>

fun jtruthy :: "json \<Rightarrow> bool" where
  "jtruthy JNull = False"
| "jtruthy (JBool b) = b"
| "jtruthy (JNum n) = (n \<noteq> 0)"
| "jtruthy (JStr s) = (s \<noteq> [])"
| "jtruthy (JArr xs) = True"
| "jtruthy (JObj kvs) = True"

fun typeofObject :: "json \<Rightarrow> bool" where
  "typeofObject JNull = True"
| "typeofObject (JArr xs) = True"
| "typeofObject (JObj kvs) = True"
| "typeofObject v = False"


text \<open>
  A \<open>Set\<close> keeps its members in insertion order; \<open>Array.from(set).sort()\<close> is
  \<^term>\<open>sort\<close> of that list.  The default \<open>sort()\<close> of strings compares code units
  lexicographically, which is the order of \<^typ>\<open>string\<close> here.
\<close>

definition jsSetAdd :: "'a list \<Rightarrow> 'a \<Rightarrow> 'a list" where
  "jsSetAdd s x = (if x \<in> set s then s else s @ [x])"

definition jsSetOf :: "'a list \<Rightarrow> 'a list" where
  "jsSetOf xs = foldl jsSetAdd [] xs"

text \<open>Character classes of the regular expressions, on code units below 256.\<close>

definition isSpace :: "char \<Rightarrow> bool" where
  "isSpace c \<longleftrightarrow>
     c \<in> set [CHR 0x09, CHR 0x0A, CHR 0x0B, CHR 0x0C, CHR 0x0D, CHR 0x20, CHR 0xA0]"

definition isQuote :: "char \<Rightarrow> bool" where
  "isQuote c \<longleftrightarrow> c = CHR 0x27 \<or> c = CHR 0x22 \<or> c = CHR 0x60"

definition isLower :: "char \<Rightarrow> bool" where
  "isLower c \<longleftrightarrow> CHR ''a'' \<le> c \<and> c \<le> CHR ''z''"

definition isUpper :: "char \<Rightarrow> bool" where
  "isUpper c \<longleftrightarrow> CHR ''A'' \<le> c \<and> c \<le> CHR ''Z''"

definition isDigit :: "char \<Rightarrow> bool" where
  "isDigit c \<longleftrightarrow> CHR ''0'' \<le> c \<and> c \<le> CHR ''9''"

definition isWordChar :: "char \<Rightarrow> bool" where
  "isWordChar c \<longleftrightarrow> isLower c \<or> isUpper c \<or> isDigit c \<or> c = CHR ''_''"

text \<open>\<open>s.includes(sub)\<close>, \<open>s.toLowerCase()\<close> and \<open>s.trim()\<close>.\<close>

fun js_includes :: "string \<Rightarrow> string \<Rightarrow> bool" where
  "js_includes [] sub = (sub = [])"
| "js_includes (c # s) sub = (startsWith (c # s) sub \<or> js_includes s sub)"

definition lowerChar :: "char \<Rightarrow> char" where
  "lowerChar c =
     (if isUpper c \<or> (CHR 0xC0 \<le> c \<and> c \<le> CHR 0xDE \<and> c \<noteq> CHR 0xD7)
      then char_of (of_char c + (32::nat)) else c)"

definition toLowerCase :: "string \<Rightarrow> string" where
  "toLowerCase s = map lowerChar s"

definition trim :: "string \<Rightarrow> string" where
  "trim s = rev (dropWhile isSpace (rev (dropWhile isSpace s)))"

section \<open>The semantic tagger: \<open>extractSemanticFromText\<close>\<close>

definition TAG_KEYWORDS :: "string list" where
  "TAG_KEYWORDS =
     [''canvas'', ''artboard'', ''flow'', ''reactflow'', ''xyflow'', ''storyboard'',
      ''publish'', ''profile'', ''subscription'', ''settings'', ''http'', ''auth'',
      ''token'', ''kling'', ''yunwu'', ''gemini'', ''grs'', ''qrcode'', ''zip'', ''worker'']"

text \<open>
  \<open>name.replace(/\.(tsx|ts|jsx|js|mjs|cjs)$/, '')\<close>: the alternatives hold no dot, so
  a match starts at the last dot of the name and is the name's ending.
\<close>

definition stripSourceExt :: "string \<Rightarrow> string" where
  "stripSourceExt b =
     (case find (endsWith b) [''.tsx'', ''.ts'', ''.jsx'', ''.js'', ''.mjs'', ''.cjs''] of
        Some e \<Rightarrow> take (length b - length e) b
      | None \<Rightarrow> b)"

definition inferRoutesFromPath :: "nodePath \<Rightarrow> string \<Rightarrow> string list" where
  "inferRoutesFromPath P filePath =
     (let p = backslashesToSlashes filePath in
      if \<not> startsWith p ''pages/'' then []
      else
        let base = stripSourceExt (path_basename P p)
        in if base = ''index'' then [''/''] else [''/'' @ base])"

subsection \<open>The three patterns\<close>

text \<open>
  The endpoint pattern
  \<^verbatim>\<open>(['"`])((?:https?:\/\/)[^'"`\s]+|\/api\/[a-zA-Z0-9._~!$&'()*+,;=:@\/-]+)\1\<close>
  at the start of \<open>s\<close>.  A match is an opening quote \<open>q\<close>, a body and the same quote.
  In the first alternative the body is \<open>http://\<close> or \<open>https://\<close> and the longest
  run of characters that are neither quotes nor white space; no shorter run can be followed
  by a quote.  In the second the body is \<open>/api/\<close> and a run of path characters; the
  apostrophe is a path character, so the run is shortened from its longest extent until the
  character after it is \<open>q\<close>.  The result is the body (group 2) and the length of the
  match.
\<close>

definition apiChar :: "char \<Rightarrow> bool" where
  "apiChar c \<longleftrightarrow>
     isLower c \<or> isUpper c \<or> isDigit c \<or> c \<in> set ''._~!$&()*+,;=:@/-'' \<or> c = CHR 0x27"

definition urlBody :: "char \<Rightarrow> string \<Rightarrow> string option" where
  "urlBody q t =
     (let scheme =
            (if startsWith t ''https://'' then Some (8::nat)
             else if startsWith t ''http://'' then Some 7 else None)
      in case scheme of
           None \<Rightarrow> None
         | Some n \<Rightarrow>
             let run = takeWhile (\<lambda>c. \<not> isQuote c \<and> \<not> isSpace c) (drop n t)
             in if run \<noteq> [] \<and> startsWith (drop (n + length run) t) [q]
                then Some (take (n + length run) t) else None)"

fun backtrackTo :: "char \<Rightarrow> string \<Rightarrow> nat \<Rightarrow> nat option" where
  "backtrackTo q u 0 = None"
| "backtrackTo q u (Suc k) =
     (if Suc k < length u \<and> u ! Suc k = q then Some (Suc k) else backtrackTo q u k)"

definition apiBody :: "char \<Rightarrow> string \<Rightarrow> string option" where
  "apiBody q t =
     (if startsWith t ''/api/'' then
        (let u = drop 5 t in
         case backtrackTo q u (length (takeWhile apiChar u)) of
           None \<Rightarrow> None
         | Some k \<Rightarrow> Some (''/api/'' @ take k u))
      else None)"

definition apiMatchHere :: "string \<Rightarrow> (string \<times> nat) option" where
  "apiMatchHere s =
     (case s of
        [] \<Rightarrow> None
      | q # t \<Rightarrow>
          if \<not> isQuote q then None
          else
            (case urlBody q t of
               Some v \<Rightarrow> Some (v, length v + 2)
             | None \<Rightarrow>
                 (case apiBody q t of
                    Some v \<Rightarrow> Some (v, length v + 2)
                  | None \<Rightarrow> None)))"

text \<open>
  \<open>text.matchAll(re)\<close>: the matches from left to right, each search starting where the
  match before it ended.  The list holds group 2 of every match.
\<close>

fun apiMatches :: "string \<Rightarrow> string list" where
  "apiMatches [] = []"
| "apiMatches (c # s) =
     (case apiMatchHere (c # s) of
        Some (v, n) \<Rightarrow> v # apiMatches (drop (n - 1) s)
      | None \<Rightarrow> apiMatches s)"

text \<open>
  The storage-key pattern
  \<^verbatim>\<open>localStorage\.(?:getItem|setItem|removeItem)\(\s*(['"`])([^'"`]+)\1\<close>.
\<close>

definition storageMatchHere :: "string \<Rightarrow> (string \<times> nat) option" where
  "storageMatchHere s =
     (if \<not> startsWith s ''localStorage.'' then None
      else
        let t = drop 13 s;
            method =
              (if startsWith t ''getItem'' then Some (7::nat)
               else if startsWith t ''setItem'' then Some 7
               else if startsWith t ''removeItem'' then Some 10 else None)
        in case method of
             None \<Rightarrow> None
           | Some m \<Rightarrow>
               if \<not> startsWith (drop m t) ''('' then None
               else
                 let u = drop (m + 1) t;
                     w = dropWhile isSpace u
                 in (case w of
                       [] \<Rightarrow> None
                     | q # x \<Rightarrow>
                         if \<not> isQuote q then None
                         else
                           let key = takeWhile (\<lambda>c. \<not> isQuote c) x
                           in if key \<noteq> [] \<and> startsWith (drop (length key) x) [q]
                              then Some (key, 13 + m + 1 + (length u - length w) + 1
                                              + length key + 1)
                              else None))"

fun storageMatches :: "string \<Rightarrow> string list" where
  "storageMatches [] = []"
| "storageMatches (c # s) =
     (case storageMatchHere (c # s) of
        Some (v, n) \<Rightarrow> v # storageMatches (drop (n - 1) s)
      | None \<Rightarrow> storageMatches s)"

text \<open>
  The environment pattern
  \<^verbatim>\<open>\b(?:process\.env|import\.meta\.env)\.([A-Z0-9_]+)\<close>.  Both alternatives start
  with a word character, so the word boundary holds when the character before the match is
  no word character (or there is none); the flag of \<open>envMatches\<close> says whether the
  character before is one.
\<close>

definition envChar :: "char \<Rightarrow> bool" where
  "envChar c \<longleftrightarrow> isUpper c \<or> isDigit c \<or> c = CHR ''_''"

definition envMatchHere :: "string \<Rightarrow> (string \<times> nat) option" where
  "envMatchHere s =
     (let idiom =
            (if startsWith s ''process.env.'' then Some (12::nat)
             else if startsWith s ''import.meta.env.'' then Some 16 else None)
      in case idiom of
           None \<Rightarrow> None
         | Some n \<Rightarrow>
             let name = takeWhile envChar (drop n s)
             in if name = [] then None else Some (name, n + length name))"

fun envMatches :: "bool \<Rightarrow> string \<Rightarrow> string list" where
  "envMatches afterWord [] = []"
| "envMatches afterWord (c # s) =
     (case (if afterWord then None else envMatchHere (c # s)) of
        Some (v, n) \<Rightarrow> v # envMatches True (drop (n - 1) s)
      | None \<Rightarrow> envMatches (isWordChar c) s)"

subsection \<open>The capped loops and the result\<close>

text \<open>
  The loop \<open>for (const m of text.matchAll(re)) { ...; set.add(v); if (set.size >= cap) break; }\<close>
  over the matches \<open>vs\<close>, with the set so far.  An empty capture is skipped; \<open>keep\<close>
  is the condition under which the value is added.
\<close>

fun collectCapped :: "nat \<Rightarrow> (string \<Rightarrow> bool) \<Rightarrow> string list \<Rightarrow> string list \<Rightarrow> string list" where
  "collectCapped cap keep [] acc = acc"
| "collectCapped cap keep (v # vs) acc =
     (if v = [] then collectCapped cap keep vs acc
      else
        let acc' = (if keep v then jsSetAdd acc v else acc)
        in if length acc' \<ge> cap then acc' else collectCapped cap keep vs acc')"

record semantic =
  feature :: string
  routes :: "string list"
  tags :: "string list"
  apiEndpoints :: "string list"
  storageKeys :: "string list"
  envVars :: "string list"

definition isEndpoint :: "string \<Rightarrow> bool" where
  "isEndpoint v \<longleftrightarrow>
     startsWith v ''http://'' \<or> startsWith v ''https://'' \<or> startsWith v ''/api/''"

definition depTags :: "string list \<Rightarrow> string \<Rightarrow> string list" where
  "depTags s dep =
     (let d = toLowerCase dep;
          s1 = (if js_includes d ''reactflow'' \<or> js_includes d ''xyflow'' then jsSetAdd s ''flow'' else s);
          s2 = (if js_includes d ''qrcode'' then jsSetAdd s1 ''qrcode'' else s1)
      in if js_includes d ''jszip'' then jsSetAdd s2 ''zip'' else s2)"

definition extractSemanticFromText ::
  "nodePath \<Rightarrow> string \<Rightarrow> string \<Rightarrow> string list \<Rightarrow> semantic"
where
  "extractSemanticFromText P text filePath externalDeps =
     (let routes = inferRoutesFromPath P filePath;
          tags0 = foldl (\<lambda>s r. jsSetAdd s ''route'') [] routes;
          lowerPath = toLowerCase filePath;
          tags1 = foldl (\<lambda>s kw. if js_includes lowerPath kw then jsSetAdd s kw else s) tags0 TAG_KEYWORDS;
          lowerText = toLowerCase text;
          tags2 = foldl (\<lambda>s kw. if js_includes lowerText kw then jsSetAdd s kw else s) tags1 TAG_KEYWORDS;
          tags3 = foldl depTags tags2 externalDeps;
          apiEndpoints = collectCapped 25 isEndpoint (apiMatches text) [];
          storageKeys = collectCapped 25 (\<lambda>k. True) (storageMatches text) [];
          envVars = collectCapped 40 (\<lambda>k. True) (envMatches False text) []
      in \<lparr>feature = featureFromPath filePath,
          routes = routes,
          tags = sort tags3,
          apiEndpoints = sort apiEndpoints,
          storageKeys = sort storageKeys,
          envVars = sort envVars\<rparr>)"

subsection \<open>String literals in a text\<close>

text \<open>
  A text that calls \<open>fetch\<close> once for each literal of a list, every literal written in
  double quotes.  An endpoint literal starts with \<open>/api/\<close>; it is plain when the rest
  is a non-empty run of the pattern's path characters, and it leaves the pattern's path
  characters when the rest holds a character that is none of them (a query string, say).
\<close>

definition fetchCalls :: "string list \<Rightarrow> string" where
  "fetchCalls literals = concat (map (\<lambda>l. ''fetch(\"'' @ l @ ''\");'') literals)"

definition plainApiLiteral :: "string \<Rightarrow> bool" where
  "plainApiLiteral l \<longleftrightarrow>
     startsWith l ''/api/'' \<and> drop 5 l \<noteq> [] \<and> list_all apiChar (drop 5 l)"

definition queryApiLiteral :: "string \<Rightarrow> bool" where
  "queryApiLiteral l \<longleftrightarrow>
     startsWith l ''/api/'' \<and> list_all (\<lambda>c. \<not> isQuote c) l \<and> \<not> list_all apiChar (drop 5 l)"

text \<open>The values a capped loop keeps: the non-empty matches that pass its condition.\<close>

definition kept :: "(string \<Rightarrow> bool) \<Rightarrow> string list \<Rightarrow> string list" where
  "kept keep vs = filter (\<lambda>v. v \<noteq> [] \<and> keep v) vs"

section \<open>The run's surroundings\<close>

text \<open>
  A call of a platform function returns or throws.  \<open>ts.parseConfigFileTextToJson\<close>
  answers with an object \<open>{ config, error }\<close>: the value it read, if any, and whether it
  reports a syntax diagnostic.  The TypeScript traversal of \<open>parseTsFile\<close> is the
  platform's as well: \<open>ts_scan\<close> gives, for a text and a file name, the specifiers and
  names in the order in which the loops of \<open>parseTsFile\<close> add them to their sets, and
  whether an export assignment was seen.
\<close>

datatype 'a outcome = Throws | Returns 'a

record parsedConfig =
  config :: "json option"
  error :: bool

record tsScan =
  importsSeen :: "string list"
  dynamicSeen :: "string list"
  namedSeen :: "string list"
  defaultSeen :: bool

record platform =
  node_path :: nodePath
  process_cwd :: string
  fs_exists :: "string \<Rightarrow> bool"
  fs_readFile :: "string \<Rightarrow> string option"
  git_lsFiles :: "string option"
  crypto_sha256 :: "string \<Rightarrow> string"
  ts_scan :: "string \<Rightarrow> string \<Rightarrow> tsScan"
  ts_sys_readFile :: "string \<Rightarrow> string option outcome"
  ts_parseConfigFileTextToJson :: "string \<Rightarrow> string \<Rightarrow> parsedConfig outcome"
  prev_index :: "json option"
  clock_now :: string

text \<open>
  In \<^typ>\<open>platform\<close>, \<open>fs_readFile\<close> is \<open>fs.readFile(p, 'utf8')\<close> (\<^term>\<open>None\<close> when
  it fails), \<open>git_lsFiles\<close> the output of \<open>git ls-files\<close> (\<^term>\<open>None\<close> when the
  command fails), \<open>prev_index\<close> what \<open>readJsonIfExists\<close> gives for the previous
  \<open>index.json\<close>, and \<open>clock_now\<close> the time stamp of the run.
\<close>

section \<open>Alias configuration: \<open>readTsconfigPaths\<close>\<close>

fun showNat :: "nat \<Rightarrow> string" where
  "showNat n =
     (if n < 10 then [char_of (48 + n)]
      else showNat (n div 10) @ [char_of (48 + n mod 10)])"

text \<open>\<open>Object.entries(v)\<close> of an object or an array.\<close>

definition objectEntries :: "json \<Rightarrow> (string \<times> json) list" where
  "objectEntries v =
     (case v of
        JObj kvs \<Rightarrow> kvs
      | JArr xs \<Rightarrow> zip (map showNat [0..<length xs]) xs
      | JStr s \<Rightarrow> zip (map showNat [0..<length s]) (map (\<lambda>c. JStr [c]) s)
      | _ \<Rightarrow> [])"

text \<open>The body of the \<open>try\<close> block, and the function with its \<open>catch\<close>.\<close>

definition readTsconfigPaths_try :: "platform \<Rightarrow> string \<Rightarrow> aliasRule list outcome" where
  "readTsconfigPaths_try W projectRootAbs =
     (let tsconfigPath = path_join (node_path W) projectRootAbs ''tsconfig.json'' in
      case ts_sys_readFile W tsconfigPath of
        Throws \<Rightarrow> Throws
      | Returns configText \<Rightarrow>
          if \<not> truthy configText then Returns []
          else
            (case ts_parseConfigFileTextToJson W tsconfigPath (the configText) of
               Throws \<Rightarrow> Throws
             | Returns parsed \<Rightarrow>
                 (case oget (oget (config parsed) ''compilerOptions'') ''paths'' of
                    None \<Rightarrow> Returns []
                  | Some paths \<Rightarrow>
                      if \<not> jtruthy paths \<or> \<not> typeofObject paths then Returns []
                      else Returns
                        [\<lparr>pattern = k, targets = vs\<rparr>. (k, JArr vs) \<leftarrow> objectEntries paths])))"

definition readTsconfigPaths :: "platform \<Rightarrow> string \<Rightarrow> aliasRule list" where
  "readTsconfigPaths W projectRootAbs =
     (case readTsconfigPaths_try W projectRootAbs of Throws \<Rightarrow> [] | Returns rules \<Rightarrow> rules)"

subsection \<open>Words of the specification about the configuration\<close>

text \<open>
  The configuration file of a run, what reading it gives, and what the parser answers for
  its text.  The file is missing when reading gives no text; the parser reports it
  malformed when it throws or answers with a syntax diagnostic.
\<close>

definition tsconfigPath :: "platform \<Rightarrow> string \<Rightarrow> string" where
  "tsconfigPath W projectRootAbs = path_join (node_path W) projectRootAbs ''tsconfig.json''"

definition configText :: "platform \<Rightarrow> string \<Rightarrow> string option outcome" where
  "configText W projectRootAbs = ts_sys_readFile W (tsconfigPath W projectRootAbs)"

definition configParsed :: "platform \<Rightarrow> string \<Rightarrow> string \<Rightarrow> parsedConfig outcome" where
  "configParsed W projectRootAbs text =
     ts_parseConfigFileTextToJson W (tsconfigPath W projectRootAbs) text"

definition configMissing :: "platform \<Rightarrow> string \<Rightarrow> bool" where
  "configMissing W projectRootAbs \<longleftrightarrow> configText W projectRootAbs = Returns None"

definition configMalformed :: "platform \<Rightarrow> string \<Rightarrow> bool" where
  "configMalformed W projectRootAbs \<longleftrightarrow>
     (case configText W projectRootAbs of
        Returns (Some text) \<Rightarrow>
          (case configParsed W projectRootAbs text of
             Throws \<Rightarrow> True
           | Returns parsed \<Rightarrow> error parsed)
      | _ \<Rightarrow> False)"

text \<open>The \<open>paths\<close> value the parser delivers, when it delivers one.\<close>

definition configPaths :: "platform \<Rightarrow> string \<Rightarrow> json option" where
  "configPaths W projectRootAbs =
     (case configText W projectRootAbs of
        Returns (Some text) \<Rightarrow>
          (case configParsed W projectRootAbs text of
             Returns parsed \<Rightarrow> oget (oget (config parsed) ''compilerOptions'') ''paths''
           | Throws \<Rightarrow> None)
      | _ \<Rightarrow> None)"

section \<open>The index generator: \<open>generateIndex\<close>\<close>

datatype run_error = CONTROL_SYSTEM_UNAVAILABLE | FILE_UNREADABLE | TypeError

definition SCHEMA_VERSION :: int where
  "SCHEMA_VERSION = 2"

definition SOURCE_EXTENSIONS :: "string list" where
  "SOURCE_EXTENSIONS = [''.ts'', ''.tsx'', ''.js'', ''.jsx'', ''.mjs'', ''.cjs'']"

definition gitLsFiles :: "platform \<Rightarrow> run_error + string list" where
  "gitLsFiles W =
     (case git_lsFiles W of
        None \<Rightarrow> Inl CONTROL_SYSTEM_UNAVAILABLE
      | Some stdout \<Rightarrow> Inr (filter (\<lambda>line. line \<noteq> []) (map trim (js_split CHR 0x0A stdout))))"

subsection \<open>One file's record\<close>

record parsedFile =
  importSpecifiers :: "string list"
  dynamicImportSpecifiers :: "string list"
  exportsNamed :: "string list"
  exportsDefault :: bool

definition parseTsFile :: "platform \<Rightarrow> string \<Rightarrow> string \<Rightarrow> parsedFile" where
  "parseTsFile W text fileName =
     (let scan = ts_scan W text fileName in
      \<lparr>importSpecifiers = sort (jsSetOf (importsSeen scan)),
       dynamicImportSpecifiers = sort (jsSetOf (dynamicSeen scan)),
       exportsNamed = sort (jsSetOf (namedSeen scan)),
       exportsDefault = defaultSeen scan\<rparr>)"

text \<open>\<open>Buffer.byteLength(text, 'utf8')\<close> for code units below 256.\<close>

definition byteLength :: "string \<Rightarrow> nat" where
  "byteLength text = sum_list (map (\<lambda>c. if (of_char c :: nat) < 128 then 1 else 2) text)"

definition strings :: "string list \<Rightarrow> json" where
  "strings xs = JArr (map JStr xs)"

definition semanticJson :: "semantic \<Rightarrow> json" where
  "semanticJson s =
     JObj [(''feature'', JStr (feature s)), (''routes'', strings (routes s)),
           (''tags'', strings (tags s)), (''apiEndpoints'', strings (apiEndpoints s)),
           (''storageKeys'', strings (storageKeys s)), (''envVars'', strings (envVars s))]"

text \<open>
  A specifier is skipped by the external list when it is relative, root-absolute or
  rewritten by an alias rule.
\<close>

definition isLocalSpec :: "aliasRule list \<Rightarrow> string \<Rightarrow> bool" where
  "isLocalSpec aliasPaths spec \<longleftrightarrow>
     startsWith spec ''./'' \<or> startsWith spec ''../'' \<or> startsWith spec ''/''
     \<or> truthy (applySimpleAlias spec aliasPaths)"

definition freshEntry :: "platform \<Rightarrow> aliasRule list \<Rightarrow> string \<Rightarrow> string \<Rightarrow> json" where
  "freshEntry W aliasPaths relPath text =
     (let parsed = parseTsFile W text relPath;
          rawSpecs = importSpecifiers parsed @ dynamicImportSpecifiers parsed;
          external = map externalPackageName (filter (\<lambda>spec. \<not> isLocalSpec aliasPaths spec) rawSpecs);
          externalDeps = sort (jsSetOf external)
      in JObj
        [(''path'', JStr relPath),
         (''kind'', JStr (drop 1 (path_extname (node_path W) relPath))),
         (''bytes'', JNum (int (byteLength text))),
         (''sha256'', JStr (crypto_sha256 W text)),
         (''importSpecifiers'', strings (importSpecifiers parsed)),
         (''dynamicImportSpecifiers'', strings (dynamicImportSpecifiers parsed)),
         (''exports'',
            JObj [(''named'', strings (exportsNamed parsed)),
                  (''default'', JBool (exportsDefault parsed))]),
         (''semantic'',
            semanticJson (extractSemanticFromText (node_path W) text relPath externalDeps))])"

definition previousFilesOf :: "json option \<Rightarrow> json" where
  "previousFilesOf previousIndex =
     (case oget previousIndex ''files'' of
        None \<Rightarrow> JObj []
      | Some f \<Rightarrow> if jtruthy f \<and> typeofObject f then f else JObj [])"

definition canReuse :: "json option \<Rightarrow> json option \<Rightarrow> string \<Rightarrow> bool" where
  "canReuse previousIndex prev digest \<longleftrightarrow>
     oget prev ''sha256'' = Some (JStr digest)
     \<and> oget previousIndex ''schemaVersion'' = Some (JNum SCHEMA_VERSION)
     \<and> (case oget prev ''semantic'' of
          None \<Rightarrow> False
        | Some s \<Rightarrow> jtruthy s \<and> typeofObject s)"

definition fileEntry :: "platform \<Rightarrow> aliasRule list \<Rightarrow> string \<Rightarrow> string \<Rightarrow> json" where
  "fileEntry W aliasPaths relPath text =
     (let digest = crypto_sha256 W text;
          prev = jget (previousFilesOf (prev_index W)) relPath
      in if canReuse (prev_index W) prev digest then the prev
         else freshEntry W aliasPaths relPath text)"

text \<open>The loop over the source files, filling \<open>nextFiles\<close>; an unreadable file ends the run.\<close>

fun indexFiles ::
  "platform \<Rightarrow> aliasRule list \<Rightarrow> string list \<Rightarrow> (string \<times> json) list
     \<Rightarrow> run_error + (string \<times> json) list"
where
  "indexFiles W aliasPaths [] nextFiles = Inr nextFiles"
| "indexFiles W aliasPaths (relPath # rest) nextFiles =
     (case fs_readFile W (path_join (node_path W) (process_cwd W) relPath) of
        None \<Rightarrow> Inl FILE_UNREADABLE
      | Some text \<Rightarrow>
          indexFiles W aliasPaths rest
            (AList.update relPath (fileEntry W aliasPaths relPath text) nextFiles))"

subsection \<open>The graph\<close>

record depsEntry =
  local :: "string list"
  localUnresolved :: "string list"
  external :: "string list"

record graph =
  deps :: "(string \<times> depsEntry) list"
  reverseDeps :: "(string \<times> string list) list"

text \<open>
  \<open>[...(v ?? [])]\<close> for a member of a file record, whose elements the loop then treats
  as specifiers: an array of strings gives its elements, a string its characters, a value
  that cannot be iterated or an element that is no string raises a \<open>TypeError\<close>.
\<close>

fun isJStr :: "json \<Rightarrow> bool" where
  "isJStr (JStr s) = True"
| "isJStr v = False"

fun strOf :: "json \<Rightarrow> string" where
  "strOf (JStr s) = s"
| "strOf v = []"

definition spreadSpecifiers :: "json option \<Rightarrow> run_error + string list" where
  "spreadSpecifiers v =
     (case v of
        None \<Rightarrow> Inr []
      | Some JNull \<Rightarrow> Inr []
      | Some (JArr xs) \<Rightarrow> if list_all isJStr xs then Inr (map strOf xs) else Inl TypeError
      | Some (JStr s) \<Rightarrow> Inr (map (\<lambda>c. [c]) s)
      | Some _ \<Rightarrow> Inl TypeError)"

definition rawSpecifiers :: "json \<Rightarrow> run_error + string list" where
  "rawSpecifiers file =
     (case spreadSpecifiers (jget file ''importSpecifiers'') of
        Inl e \<Rightarrow> Inl e
      | Inr static \<Rightarrow>
          (case spreadSpecifiers (jget file ''dynamicImportSpecifiers'') of
             Inl e \<Rightarrow> Inl e
           | Inr dynamic \<Rightarrow> Inr (static @ dynamic)))"

text \<open>The three arrays of one file, filled in the order of the specifiers, then sorted.\<close>

definition fileDeps :: "platform \<Rightarrow> aliasRule list \<Rightarrow> string \<Rightarrow> string list \<Rightarrow> depsEntry" where
  "fileDeps W aliasPaths relPath raw =
     (let edges = map (classifySpec (node_path W) (fs_exists W) (process_cwd W) relPath aliasPaths) raw
      in \<lparr>local = sort [p. LOCAL p \<leftarrow> edges],
          localUnresolved = sort [s. LOCAL_UNRESOLVED s \<leftarrow> edges],
          external = sort [n. EXTERNAL n \<leftarrow> edges]\<rparr>)"

text \<open>\<open>if (!reverseDeps[to]) reverseDeps[to] = []; reverseDeps[to].push(relPath)\<close>.\<close>

definition pushReverse :: "string \<Rightarrow> (string \<times> string list) list \<Rightarrow> string \<Rightarrow> (string \<times> string list) list" where
  "pushReverse relPath rd to =
     AList.update to ((case map_of rd to of None \<Rightarrow> [] | Some froms \<Rightarrow> froms) @ [relPath]) rd"

fun buildGraph ::
  "platform \<Rightarrow> aliasRule list \<Rightarrow> (string \<times> json) list \<Rightarrow> string list \<Rightarrow> graph
     \<Rightarrow> run_error + graph"
where
  "buildGraph W aliasPaths nextFiles [] g = Inr g"
| "buildGraph W aliasPaths nextFiles (relPath # rest) g =
     (case rawSpecifiers (the (map_of nextFiles relPath)) of
        Inl e \<Rightarrow> Inl e
      | Inr raw \<Rightarrow>
          let d = fileDeps W aliasPaths relPath raw
          in buildGraph W aliasPaths nextFiles rest
               \<lparr>deps = AList.update relPath d (deps g),
                reverseDeps = foldl (pushReverse relPath) (reverseDeps g) (local d)\<rparr>)"

definition sortReverse :: "graph \<Rightarrow> graph" where
  "sortReverse g = g\<lparr>reverseDeps := map (\<lambda>(p, froms). (p, sort froms)) (reverseDeps g)\<rparr>"

subsection \<open>The run\<close>

record indexSnapshot =
  schemaVersion :: int
  generatedAt :: string
  project_name :: string
  project_aliasPaths :: "aliasRule list"
  counts_trackedFiles :: nat
  counts_sourceFiles :: nat
  files :: "(string \<times> json) list"
  graph :: graph

definition generateIndex :: "platform \<Rightarrow> run_error + indexSnapshot" where
  "generateIndex W =
     (let projectRootAbs = process_cwd W;
          rules = readTsconfigPaths W projectRootAbs
      in case gitLsFiles W of
           Inl e \<Rightarrow> Inl e
         | Inr tracked \<Rightarrow>
             let sources = filter (\<lambda>p. path_extname (node_path W) p \<in> set SOURCE_EXTENSIONS) tracked
             in (case indexFiles W rules sources [] of
                   Inl e \<Rightarrow> Inl e
                 | Inr nextFiles \<Rightarrow>
                     let allPaths = map fst nextFiles
                     in (case buildGraph W rules nextFiles allPaths
                                \<lparr>deps = [], reverseDeps = map (\<lambda>p. (p, [])) allPaths\<rparr> of
                           Inl e \<Rightarrow> Inl e
                         | Inr g \<Rightarrow>
                             Inr \<lparr>schemaVersion = SCHEMA_VERSION,
                                  generatedAt = clock_now W,
                                  project_name = path_basename (node_path W) projectRootAbs,
                                  project_aliasPaths = rules,
                                  counts_trackedFiles = length tracked,
                                  counts_sourceFiles = length sources,
                                  files = nextFiles,
                                  graph = sortReverse g\<rparr>)))"




subsection \<open>Reading the graph\<close>

text \<open>
  \<open>importersOf g q\<close> is the set of \<open>reverseDeps[q]\<close> and \<open>localTargetsOf g p\<close>
  the set of \<open>deps[p].local\<close>, both empty where the entry is missing.  The discovered
  source files of a run are the tracked paths with a source extension.
\<close>

definition importersOf :: "graph \<Rightarrow> string \<Rightarrow> string set" where
  "importersOf g q = (case map_of (reverseDeps g) q of None \<Rightarrow> {} | Some froms \<Rightarrow> set froms)"

definition localTargetsOf :: "graph \<Rightarrow> string \<Rightarrow> string set" where
  "localTargetsOf g p = (case map_of (deps g) p of None \<Rightarrow> {} | Some d \<Rightarrow> set (local d))"

definition discoveredFiles :: "platform \<Rightarrow> string set" where
  "discoveredFiles W =
     (case gitLsFiles W of
        Inl e \<Rightarrow> {}
      | Inr tracked \<Rightarrow> {p \<in> set tracked. path_extname (node_path W) p \<in> set SOURCE_EXTENSIONS})"

text \<open>The classification of a specifier of the file \<open>relPath\<close> in the run on \<open>W\<close>.\<close>

definition classifyIn :: "platform \<Rightarrow> string \<Rightarrow> string \<Rightarrow> edge" where
  "classifyIn W relPath spec =
     classifySpec (node_path W) (fs_exists W) (process_cwd W) relPath
       (readTsconfigPaths W (process_cwd W)) spec"

section \<open>The description synthesizer: \<open>describe-files.mjs\<close>\<close>









subsection \<open>One record of the description cache\<close>






subsection \<open>The run\<close>





section \<open>The Markdown digests and the whole pipeline\<close>





subsection \<open>\<open>index.md\<close>\<close>









subsection \<open>\<open>descriptions.md\<close>\<close>





subsection \<open>\<open>sync-repo.mjs\<close>\<close>



section \<open>The cache rule as the specification words it\<close>





subsection \<open>Two consecutive runs\<close>











section \<open>A small repository, for running the model\<close>

text \<open>
  Two tracked source files and a read-me: \<open>pages/home.tsx\<close> imports
  \<open>../utils/fmt\<close>, \<open>lodash/a\<close> and \<open>lodash/b\<close>; \<open>utils/fmt.ts\<close> exports
  \<open>formatDate\<close>.  There is no \<open>tsconfig.json\<close> and no previous index.
\<close>

definition demoTexts :: "(string \<times> string) list" where
  "demoTexts =
     [(''/repo/pages/home.tsx'', ''import { formatDate } from \"../utils/fmt\";''),
      (''/repo/utils/fmt.ts'', ''export function formatDate() {}'')]"

definition demoScan :: "string \<Rightarrow> string \<Rightarrow> tsScan" where
  "demoScan text fileName =
     (if fileName = ''pages/home.tsx''
      then \<lparr>importsSeen = [''../utils/fmt'', ''lodash/a'', ''lodash/b''], dynamicSeen = [],
            namedSeen = [], defaultSeen = True\<rparr>
      else \<lparr>importsSeen = [], dynamicSeen = [], namedSeen = [''formatDate''],
            defaultSeen = False\<rparr>)"

definition demoPlatform :: platform where
  "demoPlatform =
     \<lparr>node_path = posixPath,
      process_cwd = ''/repo'',
      fs_exists = (\<lambda>p. p \<in> set (map fst demoTexts)),
      fs_readFile = map_of demoTexts,
      git_lsFiles = Some (''pages/home.tsx'' @ [CHR 0x0A] @ ''utils/fmt.ts'' @ [CHR 0x0A]
                          @ ''README.md'' @ [CHR 0x0A]),
      crypto_sha256 = (\<lambda>text. ''sha-'' @ showNat (length text)),
      ts_scan = demoScan,
      ts_sys_readFile = (\<lambda>p. Returns None),
      ts_parseConfigFileTextToJson = (\<lambda>p text. Returns \<lparr>config = None, error = False\<rparr>),
      prev_index = None,
      clock_now = ''T1''\<rparr>"

text \<open>The index that \<open>generateIndex\<close> builds for it.\<close>

definition demoIndex :: indexSnapshot where
  "demoIndex =
     \<lparr>schemaVersion = 2, generatedAt = ''T1'', project_name = ''repo'',
      project_aliasPaths = [], counts_trackedFiles = 3, counts_sourceFiles = 2,
      files =
        [(''pages/home.tsx'',
          JObj
            [(''path'', JStr ''pages/home.tsx''), (''kind'', JStr ''tsx''),
             (''bytes'', JNum 42), (''sha256'', JStr ''sha-42''),
             (''importSpecifiers'',
                JArr [JStr ''../utils/fmt'', JStr ''lodash/a'', JStr ''lodash/b'']),
             (''dynamicImportSpecifiers'', JArr []),
             (''exports'', JObj [(''named'', JArr []), (''default'', JBool True)]),
             (''semantic'',
                JObj
                  [(''feature'', JStr ''route/page''), (''routes'', JArr [JStr ''/home'']),
                   (''tags'', JArr [JStr ''route'']), (''apiEndpoints'', JArr []),
                   (''storageKeys'', JArr []), (''envVars'', JArr [])])]),
         (''utils/fmt.ts'',
          JObj
            [(''path'', JStr ''utils/fmt.ts''), (''kind'', JStr ''ts''),
             (''bytes'', JNum 31), (''sha256'', JStr ''sha-31''),
             (''importSpecifiers'', JArr []),
             (''dynamicImportSpecifiers'', JArr []),
             (''exports'', JObj [(''named'', JArr [JStr ''formatDate'']), (''default'', JBool False)]),
             (''semantic'',
                JObj
                  [(''feature'', JStr ''utility''), (''routes'', JArr []),
                   (''tags'', JArr []), (''apiEndpoints'', JArr []),
                   (''storageKeys'', JArr []), (''envVars'', JArr [])])])],
      graph =
        \<lparr>deps =
           [(''pages/home.tsx'',
             \<lparr>local = [''utils/fmt.ts''], localUnresolved = [],
              external = [''lodash'', ''lodash'']\<rparr>),
            (''utils/fmt.ts'', \<lparr>local = [], localUnresolved = [], external = []\<rparr>)],
         reverseDeps =
           [(''pages/home.tsx'', []), (''utils/fmt.ts'', [''pages/home.tsx''])]\<rparr>\<rparr>"

text \<open>
  Two configurations for the alias resolver.  In the first the file lacks its closing
  brace; the parser reports the syntax error and still delivers the object it read.  In
  the second the file is well-formed JSON whose \<open>paths\<close> member is an array.
\<close>

definition lenientParsePlatform :: platform where
  "lenientParsePlatform =
     demoPlatform
       \<lparr>ts_sys_readFile :=
          (\<lambda>p. Returns (Some ''{\"compilerOptions\":{\"paths\":{\"@/*\":[\"./src/*\"]}}'')),
        ts_parseConfigFileTextToJson :=
          (\<lambda>p text. Returns
             \<lparr>config = Some (JObj [(''compilerOptions'',
                        JObj [(''paths'', JObj [(''@/*'', JArr [JStr ''./src/*''])])])]),
              error = True\<rparr>)\<rparr>"

definition arrayPathsPlatform :: platform where
  "arrayPathsPlatform =
     demoPlatform
       \<lparr>ts_sys_readFile :=
          (\<lambda>p. Returns (Some ''{\"compilerOptions\":{\"paths\":[[\"x/*\"]]}}'')),
        ts_parseConfigFileTextToJson :=
          (\<lambda>p text. Returns
             \<lparr>config = Some (JObj [(''compilerOptions'',
                        JObj [(''paths'', JArr [JArr [JStr ''x/*'']])])]),
              error = False\<rparr>)\<rparr>"

definition throwingParsePlatform :: platform where
  "throwingParsePlatform =
     demoPlatform
       \<lparr>ts_sys_readFile := (\<lambda>p. Returns (Some ''{'')),
        ts_parseConfigFileTextToJson := (\<lambda>p text. Throws)\<rparr>"

text \<open>
  Two lists of forty distinct \<open>/api/...\<close> string literals:
  in the first the literals are \<open>/api/e1\<close> to \<open>/api/e40\<close>, in the second they
  carry a query string, \<open>/api/u?id=1\<close> to \<open>/api/u?id=40\<close>.
\<close>

definition plainLiterals :: "string list" where
  "plainLiterals = map (\<lambda>n. ''/api/e'' @ showNat n) [1..<41]"

definition queryLiterals :: "string list" where
  "queryLiterals = map (\<lambda>n. ''/api/u?id='' @ showNat n) [1..<41]"














section \<open>Properties of the string primitives\<close>

lemma js_split_nonempty: "js_split c s \<noteq> []"
  by (induction s) (auto split: list.splits)

lemma js_join_split: "js_join [c] (js_split c s) = s"
proof (induction s)
  case Nil
  show ?case by simp
next
  case (Cons x xs)
  obtain y ys where s: "js_split c xs = y # ys"
    using js_split_nonempty [of c xs] by (cases "js_split c xs") auto
  show ?case
  proof (cases "x = c")
    case True
    with s Cons show ?thesis by simp
  next
    case False
    with s Cons show ?thesis by (cases ys) auto
  qed
qed

section \<open>External package identity\<close>

lemma classifySpec_external:
  "classifySpec P pathExists root relPath rules spec = EXTERNAL n \<Longrightarrow> n = externalPackageName spec"
  unfolding classifySpec_def Let_def by (simp split: if_splits)

lemma externalPackageName_segments:
  "externalPackageName spec =
     js_join ''/'' (take (if startsWith spec ''@'' then 2 else 1) (js_split CHR ''/'' spec))"
proof -
  obtain p ps where s: "js_split CHR ''/'' spec = p # ps"
    using js_split_nonempty [of "CHR ''/''" spec] by (cases "js_split CHR ''/'' spec") auto
  have one: "ps = [] \<Longrightarrow> spec = p"
    using js_join_split [of "CHR ''/''" spec] s by simp
  show ?thesis
    using s one by (cases ps) (auto simp: externalPackageName_def Let_def)
qed

text \<open>
  Claim C7.  The package identity recorded for a specifier classified as external is the
  specifier cut at slashes and reduced to its leading segments, joined again by slashes:
  the first two segments when the specifier starts with \<open>@\<close> (a scoped name), the
  first segment otherwise.  So \<open>@scope/pkg/sub/path\<close> becomes \<open>@scope/pkg\<close> and
  \<open>lodash/debounce\<close> becomes \<open>lodash\<close>.
\<close>

theorem externalPackageName_reduces:
  "externalPackageName spec =
     js_join ''/'' (take (if startsWith spec ''@'' then 2 else 1) (js_split CHR ''/'' spec))
   \<and> (\<forall>n. classifySpec P pathExists root relPath rules spec = EXTERNAL n \<longrightarrow>
          n = js_join ''/'' (take (if startsWith spec ''@'' then 2 else 1) (js_split CHR ''/'' spec)))
   \<and> externalPackageName ''@scope/pkg/sub/path'' = ''@scope/pkg''
   \<and> externalPackageName ''lodash/debounce'' = ''lodash''"
proof -
  have "\<forall>n. classifySpec P pathExists root relPath rules spec = EXTERNAL n \<longrightarrow>
          n = js_join ''/'' (take (if startsWith spec ''@'' then 2 else 1) (js_split CHR ''/'' spec))"
  proof (intro allI impI)
    fix n assume "classifySpec P pathExists root relPath rules spec = EXTERNAL n"
    then have "n = externalPackageName spec" by (rule classifySpec_external)
    then show "n = js_join ''/'' (take (if startsWith spec ''@'' then 2 else 1) (js_split CHR ''/'' spec))"
      by (simp only: externalPackageName_segments)
  qed
  moreover have "externalPackageName ''@scope/pkg/sub/path'' = ''@scope/pkg''"
    by (simp add: externalPackageName_def startsWith_def)
  moreover have "externalPackageName ''lodash/debounce'' = ''lodash''"
    by (simp add: externalPackageName_def startsWith_def)
  moreover note externalPackageName_segments [of spec]
  ultimately show ?thesis by (intro conjI)
qed

lemma classify_lodash: "classifySpec posixPath (\<lambda>p. False) ''/repo'' ''a.ts'' [] ''lodash/debounce''
      = EXTERNAL ''lodash''"
proof -
  have a: "applySimpleAlias ''lodash/debounce'' [] = None" by simp
  have c: "candidateRel posixPath ''a.ts'' ''lodash/debounce'' [] = None"
    by (simp add: candidateRel_def startsWith_def truthy_def)
  have r: "resolveLocalImport posixPath (\<lambda>p. False) ''/repo'' ''a.ts'' ''lodash/debounce'' [] = None"
    by (simp add: resolveLocalImport_def c truthy_def)
  have e: "externalPackageName ''lodash/debounce'' = ''lodash''"
    by (simp add: externalPackageName_def startsWith_def)
  show ?thesis
    by (simp add: classifySpec_def r a e truthy_def startsWith_def)
qed

text \<open>
  An instance: without alias rules, \<open>lodash/debounce\<close> imported from \<open>a.ts\<close> is
  classified as external and recorded as \<open>lodash\<close>.
\<close>

theorem externalPackageName_reduces_witness:
  "classifySpec posixPath (\<lambda>p. False) ''/repo'' ''a.ts'' [] ''lodash/debounce'' = EXTERNAL ''lodash''
   \<and> js_join ''/'' (take (if startsWith ''lodash/debounce'' ''@'' then 2 else 1)
        (js_split CHR ''/'' ''lodash/debounce'')) = ''lodash''"
proof -
  note th = externalPackageName_reduces [of "''lodash/debounce''" posixPath "\<lambda>p. False" "''/repo''"
      "''a.ts''" "[]", THEN conjunct2, THEN conjunct1, rule_format, OF classify_lodash]
  from th classify_lodash show ?thesis by (intro conjI) (rule classify_lodash, rule th [symmetric])
qed

section \<open>The two feature classifications\<close>

text \<open>
  Claim C10, as stated: the description synthesizer's \<open>featureFromPath\<close> returns the
  same classification as the index generator's for every path.  It fails at \<open>App.tsx\<close>:
  the index generator answers \<open>app/entry\<close>, the description synthesizer \<open>app/shell\<close>.
\<close>

theorem featureFromPath_differ_counterexample:
  "featureFromPath ''App.tsx'' = ''app/entry''
   \<and> featureFromPath_describe ''App.tsx'' = ''app/shell''
   \<and> featureFromPath ''App.tsx'' \<noteq> featureFromPath_describe ''App.tsx''"
  by (simp add: featureFromPath_def featureFromPath_describe_def backslashesToSlashes_def
      startsWith_def)

text \<open>
  Claim C10, amended.  The two functions return the same classification exactly for the
  paths that, with backslashes turned into slashes, are none of \<open>App.tsx\<close>,
  \<open>AppShell.tsx\<close> and \<open>index.tsx\<close>.  On these three the index generator answers
  \<open>app/entry\<close>; the description synthesizer answers \<open>app/shell\<close> for the first two
  and \<open>module\<close> for \<open>index.tsx\<close>.
\<close>

theorem featureFromPath_agree_iff:
  "(featureFromPath fp = featureFromPath_describe fp \<longleftrightarrow>
      backslashesToSlashes fp \<notin> {''App.tsx'', ''AppShell.tsx'', ''index.tsx''})
   \<and> featureFromPath ''App.tsx'' = ''app/entry''
   \<and> featureFromPath ''AppShell.tsx'' = ''app/entry''
   \<and> featureFromPath ''index.tsx'' = ''app/entry''
   \<and> featureFromPath_describe ''App.tsx'' = ''app/shell''
   \<and> featureFromPath_describe ''AppShell.tsx'' = ''app/shell''
   \<and> featureFromPath_describe ''index.tsx'' = ''module''"
proof -
  have "featureFromPath fp = featureFromPath_describe fp \<longleftrightarrow>
      backslashesToSlashes fp \<notin> {''App.tsx'', ''AppShell.tsx'', ''index.tsx''}"
    by (auto simp: featureFromPath_def featureFromPath_describe_def Let_def startsWith_def)
  moreover have "featureFromPath ''App.tsx'' = ''app/entry''"
    "featureFromPath ''AppShell.tsx'' = ''app/entry''"
    "featureFromPath ''index.tsx'' = ''app/entry''"
    by (simp_all add: featureFromPath_def backslashesToSlashes_def startsWith_def)
  moreover have "featureFromPath_describe ''App.tsx'' = ''app/shell''"
    "featureFromPath_describe ''AppShell.tsx'' = ''app/shell''"
    "featureFromPath_describe ''index.tsx'' = ''module''"
    by (simp_all add: featureFromPath_describe_def backslashesToSlashes_def startsWith_def)
  ultimately show ?thesis by (intro conjI)
qed

section \<open>Alias substitution\<close>

lemma applySimpleAlias_Cons:
  "applySimpleAlias spec (r # rs) =
     (if prefixMatches spec r \<and> substituteFirst spec r \<noteq> None then substituteFirst spec r
      else applySimpleAlias spec rs)"
  by (auto simp: prefixMatches_def substituteFirst_def aliasPrefix_def capturedSuffix_def Let_def
      split: list.splits json.splits)

lemma applySimpleAlias_find:
  "applySimpleAlias spec rules =
     (case find (\<lambda>r. prefixMatches spec r \<and> substituteFirst spec r \<noteq> None) rules of
        None \<Rightarrow> None
      | Some r \<Rightarrow> substituteFirst spec r)"
  by (induction rules) (auto simp: applySimpleAlias_Cons simp del: applySimpleAlias.simps(2))

lemma substituteFirst_firstTargetOnly [simp]:
  "substituteFirst spec (firstTargetOnly r) = substituteFirst spec r"
  by (cases "targets r")
    (auto simp: substituteFirst_def firstTargetOnly_def capturedSuffix_def aliasPrefix_def
      split: json.splits)

lemma prefixMatches_firstTargetOnly [simp]:
  "prefixMatches spec (firstTargetOnly r) = prefixMatches spec r"
  by (simp add: prefixMatches_def firstTargetOnly_def aliasPrefix_def)

lemma applySimpleAlias_firstTargetOnly:
  "applySimpleAlias spec (map firstTargetOnly rules) = applySimpleAlias spec rules"
  by (induction rules) (auto simp: applySimpleAlias_Cons simp del: applySimpleAlias.simps(2))

text \<open>
  Claim C3, as stated: the first rule whose prefix matches the specifier decides, through
  its first target alone.  With the rules \<open>@a/*\<close> (no target) and \<open>@a/b/*\<close>
  (target \<open>lib/*\<close>) and the specifier \<open>@a/b/c\<close>, the first rule whose prefix
  matches is \<open>@a/*\<close>, which has no usable first target; the code skips it and rewrites
  with the second rule.
\<close>

theorem applySimpleAlias_first_match_counterexample:
  "applySimpleAlias ''@a/b/c''
      [\<lparr>pattern = ''@a/*'', targets = []\<rparr>, \<lparr>pattern = ''@a/b/*'', targets = [JStr ''lib/*'']\<rparr>]
     = Some ''lib/c''
   \<and> applyAlias_spec ''@a/b/c''
      [\<lparr>pattern = ''@a/*'', targets = []\<rparr>, \<lparr>pattern = ''@a/b/*'', targets = [JStr ''lib/*'']\<rparr>]
     = None"
  by (simp add: applyAlias_spec_def prefixMatches_def substituteFirst_def aliasPrefix_def
      startsWith_def endsWith_def)

text \<open>
  Claim C3, amended.  \<open>applySimpleAlias\<close> uses the first rule whose prefix matches the
  specifier and whose first target is usable (the passthrough \<open>./*\<close> or a string
  ending in \<open>/*\<close>); rules whose first target is missing, not a string or without
  wildcard are skipped.  Of the rule used only the first target counts: the passthrough
  yields the captured suffix, a wildcard target yields its prefix, a slash and the captured
  suffix.  Dropping every later target of every rule changes no result.
\<close>

theorem applySimpleAlias_first_usable_rule:
  "applySimpleAlias spec rules =
     (case find (\<lambda>r. prefixMatches spec r \<and> substituteFirst spec r \<noteq> None) rules of
        None \<Rightarrow> None
      | Some r \<Rightarrow> substituteFirst spec r)
   \<and> applySimpleAlias spec (map firstTargetOnly rules) = applySimpleAlias spec rules"
  using applySimpleAlias_find [of spec rules] applySimpleAlias_firstTargetOnly [of spec rules]
  by blast

section \<open>The resolution cascade\<close>

lemma probePaths_tryPaths:
  "probePaths P c =
     map (\<lambda>ext. c @ ext) RESOLVE_EXTENSIONS
     @ map (\<lambda>ext. path_join P c (''index'' @ ext)) RESOLVE_EXTENSIONS"
  by (simp add: probePaths_def RESOLVE_EXTENSIONS_def)

lemma length_probePaths: "length (probePaths P c) = 16"
  by (simp add: probePaths_def)

lemma find_first:
  "i < length xs \<Longrightarrow> Q (xs ! i) \<Longrightarrow> (\<forall>j<i. \<not> Q (xs ! j)) \<Longrightarrow> find Q xs = Some (xs ! i)"
  by (auto simp: find_Some_iff)

lemma find_none: "(\<forall>x\<in>set xs. \<not> Q x) \<Longrightarrow> find Q xs = None"
  by (simp add: find_None_iff)

lemma resolveLocalImport_candidate:
  assumes "candidateRel P importerRel spec aliasPaths = Some c" and "c \<noteq> []"
  shows "resolveLocalImport P pathExists root importerRel spec aliasPaths =
     map_option (\<lambda>p. toPosixPath P (path_relative P root p))
       (find pathExists
          (if path_extname P (path_resolve P root c) \<noteq> [] then [path_resolve P root c]
           else probePaths P (path_resolve P root c)))"
  using assms
  by (simp add: resolveLocalImport_def truthy_def probePaths_tryPaths Let_def
      split: option.splits)

lemma candidate_is_local:
  assumes "candidateRel P importerRel spec aliasPaths = Some c"
  shows "startsWith spec ''./'' \<or> startsWith spec ''../'' \<or> startsWith spec ''/''
         \<or> truthy (applySimpleAlias spec aliasPaths)"
  using assms by (auto simp: candidateRel_def Let_def split: if_splits)

text \<open>
  Claim C2.  Let \<open>c\<close> be the candidate of a specifier (relative to the root, not
  empty) and \<open>a\<close> its absolute path.  If \<open>a\<close> has an extension, existence
  is tested on \<open>a\<close> itself and on nothing else.  Otherwise the resolver probes, in
  this order, \<open>a\<close> followed by each of the eight recognized extensions, then
  \<open>index\<close> followed by each of them inside \<open>a\<close> (joined by \<open>path.join\<close>),
  and the result is the first probed path that exists, made relative to the root.  If no
  probed path exists the result is \<open>null\<close>, and whenever the result is \<open>null\<close> the
  graph loop classifies the specifier as locally unresolved, never as external.
\<close>

theorem resolveLocalImport_cascade:
  assumes "candidateRel P importerRel spec aliasPaths = Some c" and "c \<noteq> []"
  shows
  "(let a = path_resolve P root c;
        r = resolveLocalImport P pathExists root importerRel spec aliasPaths;
        rel = (\<lambda>p. toPosixPath P (path_relative P root p))
    in (path_extname P a \<noteq> [] \<longrightarrow> r = (if pathExists a then Some (rel a) else None))
     \<and> (path_extname P a = [] \<longrightarrow>
          (\<forall>i<16. pathExists (probePaths P a ! i) \<and> (\<forall>j<i. \<not> pathExists (probePaths P a ! j))
             \<longrightarrow> r = Some (rel (probePaths P a ! i)))
          \<and> ((\<forall>p\<in>set (probePaths P a). \<not> pathExists p) \<longrightarrow> r = None))
     \<and> (r = None \<longrightarrow>
          classifySpec P pathExists root importerRel aliasPaths spec = LOCAL_UNRESOLVED spec))"
proof -
  let ?a = "path_resolve P root c"
  let ?r = "resolveLocalImport P pathExists root importerRel spec aliasPaths"
  let ?rel = "\<lambda>p. toPosixPath P (path_relative P root p)"
  note r = resolveLocalImport_candidate [OF assms, of pathExists root]
  have ext: "path_extname P ?a \<noteq> [] \<longrightarrow> ?r = (if pathExists ?a then Some (?rel ?a) else None)"
    by (simp add: r)
  have first: "\<forall>i<16. pathExists (probePaths P ?a ! i) \<and> (\<forall>j<i. \<not> pathExists (probePaths P ?a ! j))
             \<longrightarrow> ?r = Some (?rel (probePaths P ?a ! i))"
    if "path_extname P ?a = []"
  proof (intro allI impI)
    fix i :: nat
    assume "i < 16" and h: "pathExists (probePaths P ?a ! i) \<and> (\<forall>j<i. \<not> pathExists (probePaths P ?a ! j))"
    then have "find pathExists (probePaths P ?a) = Some (probePaths P ?a ! i)"
      by (intro find_first) (simp_all add: length_probePaths)
    with that show "?r = Some (?rel (probePaths P ?a ! i))" by (simp add: r)
  qed
  have none: "(\<forall>p\<in>set (probePaths P ?a). \<not> pathExists p) \<longrightarrow> ?r = None"
    if "path_extname P ?a = []"
    using that by (simp add: r find_none)
  have cls: "?r = None \<longrightarrow>
      classifySpec P pathExists root importerRel aliasPaths spec = LOCAL_UNRESOLVED spec"
    using candidate_is_local [OF assms(1)] by (auto simp: classifySpec_def truthy_def)
  show ?thesis
    unfolding Let_def using ext first none cls by blast
qed

text \<open>
  An instance: from \<open>pages/b.ts\<close> the specifier \<open>./a\<close>, when only
  \<open>pages/a/index.tsx\<close> exists, resolves to it at the tenth probe.
\<close>

theorem resolveLocalImport_cascade_witness:
  "candidateRel posixPath ''pages/b.ts'' ''./a'' [] = Some ''pages/a''
   \<and> posix_extname ''/repo/pages/a'' = []
   \<and> probePaths posixPath ''/repo/pages/a'' ! 9 = ''/repo/pages/a/index.tsx''
   \<and> resolveLocalImport posixPath (\<lambda>p. p = ''/repo/pages/a/index.tsx'') ''/repo''
        ''pages/b.ts'' ''./a'' [] = Some ''pages/a/index.tsx''"
proof -
  have c: "candidateRel posixPath ''pages/b.ts'' ''./a'' [] = Some ''pages/a''"
    by (simp add: candidateRel_def startsWith_def endsWith_def posixPath_def posix_join_def
        posix_dirname_def posix_normalize_def stripTrailingSlashes_def Let_def)
  have a: "path_resolve posixPath ''/repo'' ''pages/a'' = ''/repo/pages/a''"
    by (simp add: posixPath_def posix_resolve_def startsWith_def)
  have e: "posix_extname ''/repo/pages/a'' = []"
    by (simp add: posix_extname_def lastSegment_def stripTrailingSlashes_def)
  have p: "probePaths posixPath ''/repo/pages/a'' =
     [''/repo/pages/a.ts'', ''/repo/pages/a.tsx'', ''/repo/pages/a.js'', ''/repo/pages/a.jsx'',
      ''/repo/pages/a.mjs'', ''/repo/pages/a.cjs'', ''/repo/pages/a.json'', ''/repo/pages/a.css'',
      ''/repo/pages/a/index.ts'', ''/repo/pages/a/index.tsx'', ''/repo/pages/a/index.js'',
      ''/repo/pages/a/index.jsx'', ''/repo/pages/a/index.mjs'', ''/repo/pages/a/index.cjs'',
      ''/repo/pages/a/index.json'', ''/repo/pages/a/index.css'']"
    by (simp add: probePaths_def posixPath_def posix_join_def posix_normalize_def
        startsWith_def endsWith_def Let_def)
  have rel: "toPosixPath posixPath (path_relative posixPath ''/repo'' ''/repo/pages/a/index.tsx'')
      = ''pages/a/index.tsx''"
    by (simp add: toPosixPath_def posixPath_def posix_relative_def)
  have earlier: "\<forall>j<9. \<not> (probePaths posixPath ''/repo/pages/a'' ! j = ''/repo/pages/a/index.tsx'')"
  proof (intro allI impI)
    fix j :: nat assume "j < 9"
    then consider "j = 0" | "j = 1" | "j = 2" | "j = 3" | "j = 4" | "j = 5" | "j = 6" | "j = 7" | "j = 8"
      by linarith
    then show "\<not> (probePaths posixPath ''/repo/pages/a'' ! j = ''/repo/pages/a/index.tsx'')"
      by cases (simp_all add: p)
  qed
  have nine: "probePaths posixPath ''/repo/pages/a'' ! 9 = ''/repo/pages/a/index.tsx''"
    by (simp add: p)
  have e': "path_extname posixPath (path_resolve posixPath ''/repo'' ''pages/a'') = []"
    using e by (simp add: a) (simp add: posixPath_def)
  let ?ex = "\<lambda>p. p = ''/repo/pages/a/index.tsx''"
  let ?ps = "probePaths posixPath ''/repo/pages/a''"
  let ?r = "resolveLocalImport posixPath ?ex ''/repo'' ''pages/b.ts'' ''./a'' []"
  have "\<forall>i<16. ?ex (?ps ! i) \<and> (\<forall>j<i. \<not> ?ex (?ps ! j)) \<longrightarrow>
      ?r = Some (toPosixPath posixPath (path_relative posixPath ''/repo'' (?ps ! i)))"
    using resolveLocalImport_cascade [OF c, of "''/repo''" ?ex] e'
    by (simp add: Let_def a)
  note step = this [rule_format, of 9]
  have "?r = Some (toPosixPath posixPath (path_relative posixPath ''/repo'' (?ps ! 9)))"
    by (rule step) (use nine earlier in simp_all)
  with nine rel have "?r = Some ''pages/a/index.tsx''"
    by simp
  with c e nine show ?thesis by blast
qed

section \<open>The dependency graph\<close>

lemma map_of_pushReverse:
  "map_of (pushReverse r rd to) q =
     (if q = to then Some ((case map_of rd to of None \<Rightarrow> [] | Some froms \<Rightarrow> froms) @ [r])
      else map_of rd q)"
  by (simp add: pushReverse_def update_conv')

lemma dom_foldl_pushReverse:
  "dom (map_of (foldl (pushReverse r) rd tos)) = dom (map_of rd) \<union> set tos"
proof (induction tos arbitrary: rd)
  case Nil
  show ?case by simp
next
  case (Cons t tos)
  have "dom (map_of (pushReverse r rd t)) = insert t (dom (map_of rd))"
    by (auto simp: map_of_pushReverse split: if_splits)
  with Cons show ?case by auto
qed

lemma set_foldl_pushReverse:
  "(case map_of (foldl (pushReverse r) rd tos) q of None \<Rightarrow> {} | Some froms \<Rightarrow> set froms) =
     (case map_of rd q of None \<Rightarrow> {} | Some froms \<Rightarrow> set froms)
     \<union> (if q \<in> set tos then {r} else {})"
proof (induction tos arbitrary: rd)
  case Nil
  show ?case by simp
next
  case (Cons t tos)
  have step: "(case map_of (pushReverse r rd t) q of None \<Rightarrow> {} | Some froms \<Rightarrow> set froms) =
     (case map_of rd q of None \<Rightarrow> {} | Some froms \<Rightarrow> set froms) \<union> (if q = t then {r} else {})"
    by (auto simp: map_of_pushReverse split: option.splits)
  show ?case
    using Cons [of "pushReverse r rd t"] step by auto
qed

lemma buildGraph_invariant:
  assumes "buildGraph W rules nextFiles ps g = Inr g'"
    and "distinct ps"
    and "dom (map_of (deps g)) \<inter> set ps = {}"
    and "\<forall>p q. q \<in> localTargetsOf g p \<longleftrightarrow> p \<in> importersOf g q"
  shows "(\<forall>p q. q \<in> localTargetsOf g' p \<longleftrightarrow> p \<in> importersOf g' q)
       \<and> dom (map_of (reverseDeps g)) \<subseteq> dom (map_of (reverseDeps g'))
       \<and> dom (map_of (deps g')) = dom (map_of (deps g)) \<union> set ps"
  using assms
proof (induction ps arbitrary: g)
  case Nil
  then show ?case by simp
next
  case (Cons r rest)
  from Cons.prems(1) obtain raw where raw: "rawSpecifiers (the (map_of nextFiles r)) = Inr raw"
    by (auto split: sum.splits)
  define d where "d = fileDeps W rules r raw"
  define g1 where "g1 = \<lparr>deps = AList.update r d (deps g),
      reverseDeps = foldl (pushReverse r) (reverseDeps g) (local d)\<rparr>"
  have run: "buildGraph W rules nextFiles rest g1 = Inr g'"
    using Cons.prems(1) raw by (simp add: d_def g1_def Let_def)
  have fresh: "map_of (deps g) r = None"
    using Cons.prems(3) by auto
  have no_r: "r \<notin> importersOf g q" for q
    using Cons.prems(4) [rule_format, of q r] fresh by (simp add: localTargetsOf_def)
  have targets1: "localTargetsOf g1 p = (if p = r then set (local d) else localTargetsOf g p)" for p
    by (simp add: localTargetsOf_def g1_def update_conv')
  have importers1: "importersOf g1 q = importersOf g q \<union> (if q \<in> set (local d) then {r} else {})" for q
    using set_foldl_pushReverse [of r "reverseDeps g" "local d" q]
    by (simp add: importersOf_def g1_def)
  have inv1: "\<forall>p q. q \<in> localTargetsOf g1 p \<longleftrightarrow> p \<in> importersOf g1 q"
    using Cons.prems(4) no_r by (auto simp: targets1 importers1)
  have dom1: "dom (map_of (deps g1)) = insert r (dom (map_of (deps g)))"
    by (simp add: g1_def update_conv')
  have disj1: "dom (map_of (deps g1)) \<inter> set rest = {}"
    using Cons.prems(2,3) by (auto simp: dom1)
  have rd1: "dom (map_of (reverseDeps g)) \<subseteq> dom (map_of (reverseDeps g1))"
    by (simp add: g1_def dom_foldl_pushReverse)
  from Cons.IH [OF run _ disj1 inv1] Cons.prems(2)
  have "(\<forall>p q. q \<in> localTargetsOf g' p \<longleftrightarrow> p \<in> importersOf g' q)
       \<and> dom (map_of (reverseDeps g1)) \<subseteq> dom (map_of (reverseDeps g'))
       \<and> dom (map_of (deps g')) = dom (map_of (deps g1)) \<union> set rest"
    by simp
  then have a: "\<forall>p q. q \<in> localTargetsOf g' p \<longleftrightarrow> p \<in> importersOf g' q"
    and b: "dom (map_of (reverseDeps g1)) \<subseteq> dom (map_of (reverseDeps g'))"
    and c: "dom (map_of (deps g')) = dom (map_of (deps g1)) \<union> set rest"
    by blast+
  from rd1 b have "dom (map_of (reverseDeps g)) \<subseteq> dom (map_of (reverseDeps g'))"
    by (rule subset_trans)
  moreover from c dom1 have "dom (map_of (deps g')) = dom (map_of (deps g)) \<union> set (r # rest)"
    by simp
  ultimately show ?case using a by blast
qed

lemma map_of_sortReverse:
  "map_of (reverseDeps (sortReverse g)) q = map_option sort (map_of (reverseDeps g) q)"
proof -
  have "map_of (map (\<lambda>(p, froms). (p, sort froms)) rd) q = map_option sort (map_of rd q)" for rd
    by (induction rd) auto
  then show ?thesis by (simp add: sortReverse_def)
qed

lemma importersOf_sortReverse [simp]: "importersOf (sortReverse g) q = importersOf g q"
  by (simp add: importersOf_def map_of_sortReverse split: option.splits)

lemma localTargetsOf_sortReverse [simp]: "localTargetsOf (sortReverse g) p = localTargetsOf g p"
  by (simp add: localTargetsOf_def sortReverse_def)

lemma indexFiles_keys:
  assumes "indexFiles W rules ps acc = Inr nextFiles" and "distinct (map fst acc)"
  shows "distinct (map fst nextFiles) \<and> set (map fst nextFiles) = set (map fst acc) \<union> set ps"
  using assms
proof (induction ps arbitrary: acc)
  case Nil
  then show ?case by simp
next
  case (Cons r rest)
  from Cons.prems(1) obtain content where
    run: "indexFiles W rules rest (AList.update r (fileEntry W rules r content) acc) = Inr nextFiles"
    by (auto split: option.splits)
  have "distinct (map fst (AList.update r (fileEntry W rules r content) acc))"
    using Cons.prems(2) by (rule distinct_update)
  from Cons.IH [OF run this] show ?case
    by (auto simp: dom_update)
qed

lemma map_of_initial_reverse: "dom (map_of (map (\<lambda>p. (p, [])) ps)) = set ps"
  by (simp add: dom_map_of_conv_image_fst image_comp)

lemma demo_run: "generateIndex demoPlatform = Inr demoIndex"
  by code_simp

lemma map_of_initial_value: "map_of (map (\<lambda>p. (p, [])) ps) q = Some x \<Longrightarrow> x = []"
  by (auto dest: map_of_SomeD)

lemma initial_graph_symmetric:
  "q \<in> localTargetsOf \<lparr>deps = [], reverseDeps = map (\<lambda>p. (p, [])) ps\<rparr> p
     \<longleftrightarrow> p \<in> importersOf \<lparr>deps = [], reverseDeps = map (\<lambda>p. (p, [])) ps\<rparr> q"
  by (auto simp: localTargetsOf_def importersOf_def split: option.splits
      dest: map_of_initial_value)

lemma generateIndex_parts:
  assumes "generateIndex W = Inr idx"
  obtains tracked nextFiles g where
    "gitLsFiles W = Inr tracked"
    "indexFiles W (readTsconfigPaths W (process_cwd W))
       (filter (\<lambda>p. path_extname (node_path W) p \<in> set SOURCE_EXTENSIONS) tracked) [] = Inr nextFiles"
    "buildGraph W (readTsconfigPaths W (process_cwd W)) nextFiles (map fst nextFiles)
       \<lparr>deps = [], reverseDeps = map (\<lambda>p. (p, [])) (map fst nextFiles)\<rparr> = Inr g"
    "files idx = nextFiles" "graph idx = sortReverse g"
  using assms by (auto simp: generateIndex_def Let_def split: sum.splits)

lemma generateIndex_graph:
  assumes "generateIndex W = Inr idx"
  shows "(\<forall>p q. q \<in> localTargetsOf (graph idx) p \<longleftrightarrow> p \<in> importersOf (graph idx) q)
       \<and> discoveredFiles W \<subseteq> dom (map_of (reverseDeps (graph idx)))
       \<and> dom (map_of (deps (graph idx))) = discoveredFiles W
       \<and> set (map fst (files idx)) = discoveredFiles W"
proof -
  from assms obtain tracked nextFiles g where
    git: "gitLsFiles W = Inr tracked"
    and fs: "indexFiles W (readTsconfigPaths W (process_cwd W))
       (filter (\<lambda>p. path_extname (node_path W) p \<in> set SOURCE_EXTENSIONS) tracked) [] = Inr nextFiles"
    and bg: "buildGraph W (readTsconfigPaths W (process_cwd W)) nextFiles (map fst nextFiles)
       \<lparr>deps = [], reverseDeps = map (\<lambda>p. (p, [])) (map fst nextFiles)\<rparr> = Inr g"
    and idx: "files idx = nextFiles" "graph idx = sortReverse g"
    by (rule generateIndex_parts)
  let ?g0 = "\<lparr>deps = [], reverseDeps = map (\<lambda>p. (p, [])) (map fst nextFiles)\<rparr>"
  from indexFiles_keys [OF fs] have keys: "distinct (map fst nextFiles)"
    and keyset: "set (map fst nextFiles) = discoveredFiles W"
    by (auto simp: discoveredFiles_def git)
  have inv0: "\<forall>p q. q \<in> localTargetsOf ?g0 p \<longleftrightarrow> p \<in> importersOf ?g0 q"
    using initial_graph_symmetric [of _ "map fst nextFiles"] by blast
  from buildGraph_invariant [OF bg keys _ inv0]
  have inv: "\<forall>p q. q \<in> localTargetsOf g p \<longleftrightarrow> p \<in> importersOf g q"
    and rd: "dom (map_of (reverseDeps ?g0)) \<subseteq> dom (map_of (reverseDeps g))"
    and dd: "dom (map_of (deps g)) = dom (map_of (deps ?g0)) \<union> set (map fst nextFiles)"
    by simp_all
  have "dom (map_of (reverseDeps (sortReverse g))) = dom (map_of (reverseDeps g))"
    by (auto simp: map_of_sortReverse)
  moreover have "dom (map_of (reverseDeps ?g0)) = set (map fst nextFiles)"
    using map_of_initial_reverse [of "map fst nextFiles"] by simp
  moreover have "deps (sortReverse g) = deps g"
    by (simp add: sortReverse_def)
  ultimately show ?thesis
    using inv rd dd keyset by (simp add: idx)
qed

text \<open>
  Claim C1.  In the graph of every run that produces an index, \<open>q\<close> is a member of
  \<open>deps[p].local\<close> exactly when \<open>p\<close> is a member of \<open>reverseDeps[q]\<close>, for all
  paths \<open>p\<close> and \<open>q\<close>; and every discovered source file has a \<open>reverseDeps\<close>
  entry.
\<close>

theorem reverse_edge_symmetry:
  assumes "generateIndex W = Inr idx"
  shows "(\<forall>p q. (\<exists>d. map_of (deps (graph idx)) p = Some d \<and> q \<in> set (local d))
                \<longleftrightarrow> (\<exists>froms. map_of (reverseDeps (graph idx)) q = Some froms \<and> p \<in> set froms))
       \<and> (\<forall>p \<in> discoveredFiles W. \<exists>froms. map_of (reverseDeps (graph idx)) p = Some froms)"
proof -
  note g = generateIndex_graph [OF assms]
  have "(\<exists>d. map_of (deps (graph idx)) p = Some d \<and> q \<in> set (local d))
      \<longleftrightarrow> (\<exists>froms. map_of (reverseDeps (graph idx)) q = Some froms \<and> p \<in> set froms)" for p q
  proof -
    have "(\<exists>d. map_of (deps (graph idx)) p = Some d \<and> q \<in> set (local d))
        \<longleftrightarrow> q \<in> localTargetsOf (graph idx) p"
      by (auto simp: localTargetsOf_def split: option.splits)
    also have "\<dots> \<longleftrightarrow> p \<in> importersOf (graph idx) q"
      using g by blast
    also have "\<dots> \<longleftrightarrow> (\<exists>froms. map_of (reverseDeps (graph idx)) q = Some froms \<and> p \<in> set froms)"
      by (auto simp: importersOf_def split: option.splits)
    finally show ?thesis .
  qed
  moreover have "\<forall>p \<in> discoveredFiles W. \<exists>froms. map_of (reverseDeps (graph idx)) p = Some froms"
    using g by blast
  ultimately show ?thesis by blast
qed

text \<open>
  The small repository: its run produces the index \<^term>\<open>demoIndex\<close>, where
  \<open>pages/home.tsx\<close> depends on \<open>utils/fmt.ts\<close> and is therefore among its importers.
\<close>

theorem reverse_edge_symmetry_witness:
  "generateIndex demoPlatform = Inr demoIndex
   \<and> map_of (deps (graph demoIndex)) ''pages/home.tsx''
       = Some \<lparr>local = [''utils/fmt.ts''], localUnresolved = [], external = [''lodash'', ''lodash'']\<rparr>
   \<and> (\<exists>froms. map_of (reverseDeps (graph demoIndex)) ''utils/fmt.ts'' = Some froms
         \<and> ''pages/home.tsx'' \<in> set froms)"
proof -
  have d: "map_of (deps (graph demoIndex)) ''pages/home.tsx''
       = Some \<lparr>local = [''utils/fmt.ts''], localUnresolved = [], external = [''lodash'', ''lodash'']\<rparr>"
    by (simp add: demoIndex_def)
  then have "\<exists>d. map_of (deps (graph demoIndex)) ''pages/home.tsx'' = Some d
      \<and> ''utils/fmt.ts'' \<in> set (local d)"
    by simp
  with reverse_edge_symmetry [OF demo_run]
  have "\<exists>froms. map_of (reverseDeps (graph demoIndex)) ''utils/fmt.ts'' = Some froms
         \<and> ''pages/home.tsx'' \<in> set froms"
    by blast
  with demo_run d show ?thesis by blast
qed

section \<open>The three lists of a file\<close>

lemma buildGraph_deps:
  assumes "buildGraph W rules nextFiles ps g = Inr g'" and "distinct ps" and "p \<in> set ps"
  shows "\<exists>raw. rawSpecifiers (the (map_of nextFiles p)) = Inr raw
           \<and> map_of (deps g') p = Some (fileDeps W rules p raw)"
  using assms
proof (induction ps arbitrary: g)
  case Nil
  then show ?case by simp
next
  case (Cons r rest)
  from Cons.prems(1) obtain raw where raw: "rawSpecifiers (the (map_of nextFiles r)) = Inr raw"
    by (auto split: sum.splits)
  define g1 where "g1 = \<lparr>deps = AList.update r (fileDeps W rules r raw) (deps g),
      reverseDeps = foldl (pushReverse r) (reverseDeps g) (local (fileDeps W rules r raw))\<rparr>"
  have run: "buildGraph W rules nextFiles rest g1 = Inr g'"
    using Cons.prems(1) raw by (simp add: g1_def Let_def)
  show ?case
  proof (cases "p \<in> set rest")
    case True
    with Cons.IH [OF run] Cons.prems(2) show ?thesis by simp
  next
    case False
    with Cons.prems(3) have pr: "p = r" by simp
    have disj: "dom (map_of (deps g1)) \<inter> set rest \<subseteq> dom (map_of (deps g1))"
      by blast
    have keep: "map_of (deps g') r = map_of (deps g1) r"
      using run Cons.prems(2)
    proof (induction rest arbitrary: g1)
      case Nil
      then show ?case by simp
    next
      case (Cons a rest)
      from Cons.prems(1) obtain raw' where
        raw': "rawSpecifiers (the (map_of nextFiles a)) = Inr raw'"
        by (auto split: sum.splits)
      define g2 where "g2 = \<lparr>deps = AList.update a (fileDeps W rules a raw') (deps g1),
        reverseDeps = foldl (pushReverse a) (reverseDeps g1) (local (fileDeps W rules a raw'))\<rparr>"
      have run2: "buildGraph W rules nextFiles rest g2 = Inr g'"
        using Cons.prems(1) raw' by (simp add: g2_def Let_def)
      have "map_of (deps g') r = map_of (deps g2) r"
        using Cons.IH [OF run2] Cons.prems(2) by simp
      also have "\<dots> = map_of (deps g1) r"
        using Cons.prems(2) by (auto simp: g2_def update_conv')
      finally show ?case .
    qed
    then show ?thesis
      using raw pr by (simp add: g1_def update_conv')
  qed
qed

lemma length_edges_split:
  "length [p. LOCAL p \<leftarrow> es] + length [s. LOCAL_UNRESOLVED s \<leftarrow> es] + length [n. EXTERNAL n \<leftarrow> es]
     = length es"
  by (induction es) (auto split: edge.splits)

lemma set_edges_LOCAL: "set [p. LOCAL p \<leftarrow> es] = {p. LOCAL p \<in> set es}"
  by (induction es) (auto split: edge.splits)

lemma set_edges_LOCAL_UNRESOLVED: "set [s. LOCAL_UNRESOLVED s \<leftarrow> es] = {s. LOCAL_UNRESOLVED s \<in> set es}"
  by (induction es) (auto split: edge.splits)

lemma set_edges_EXTERNAL: "set [n. EXTERNAL n \<leftarrow> es] = {n. EXTERNAL n \<in> set es}"
  by (induction es) (auto split: edge.splits)

lemma fileDeps_properties:
  fixes W rules relPath raw
  defines "d \<equiv> fileDeps W rules relPath raw"
    and "c \<equiv> classifySpec (node_path W) (fs_exists W) (process_cwd W) relPath rules"
  shows "sorted (local d) \<and> sorted (localUnresolved d) \<and> sorted (external d)
       \<and> set (local d) = {r. LOCAL r \<in> c ` set raw}
       \<and> set (localUnresolved d) = {s. LOCAL_UNRESOLVED s \<in> c ` set raw}
       \<and> set (external d) = {n. EXTERNAL n \<in> c ` set raw}
       \<and> length (local d) + length (localUnresolved d) + length (external d) = length raw"
proof -
  have d_eq: "local d = sort [p. LOCAL p \<leftarrow> map c raw]"
    "localUnresolved d = sort [s. LOCAL_UNRESOLVED s \<leftarrow> map c raw]"
    "external d = sort [n. EXTERNAL n \<leftarrow> map c raw]"
    unfolding d_def c_def fileDeps_def Let_def by simp_all
  have len: "length (local d) + length (localUnresolved d) + length (external d) = length raw"
    unfolding d_eq using length_edges_split [of "map c raw"] by (simp only: length_sort length_map)
  have sets: "set (local d) = {r. LOCAL r \<in> c ` set raw}"
    "set (localUnresolved d) = {s. LOCAL_UNRESOLVED s \<in> c ` set raw}"
    "set (external d) = {n. EXTERNAL n \<in> c ` set raw}"
    unfolding d_eq
    by (simp_all only: set_sort set_edges_LOCAL set_edges_LOCAL_UNRESOLVED set_edges_EXTERNAL set_map)
  have srt: "sorted (local d)" "sorted (localUnresolved d)" "sorted (external d)"
    unfolding d_eq by (simp_all only: sorted_sort)
  from srt sets len show ?thesis by blast
qed

lemma rawSpecifiers_both:
  "rawSpecifiers file = Inr raw \<Longrightarrow>
     \<exists>static dynamic. spreadSpecifiers (jget file ''importSpecifiers'') = Inr static
       \<and> spreadSpecifiers (jget file ''dynamicImportSpecifiers'') = Inr dynamic
       \<and> raw = static @ dynamic"
  by (auto simp: rawSpecifiers_def split: sum.splits)

text \<open>
  Claim C4, amended.  For every file of a run that produces an index, the three lists of
  its \<open>deps\<close> entry are sorted lexicographically and are filled from the file's static
  specifiers followed by its dynamic ones: \<open>local\<close> holds the resolved paths,
  \<open>localUnresolved\<close> the raw specifiers and \<open>external\<close> the package identities
  of the specifiers so classified.  Every specifier contributes one entry, so the lists are
  not deduplicated: their lengths add up to the number of specifiers.
\<close>

theorem graph_lists_sorted_merged:
  assumes "generateIndex W = Inr idx" and "map_of (deps (graph idx)) p = Some d"
  shows "\<exists>static dynamic.
           spreadSpecifiers (jget (the (map_of (files idx) p)) ''importSpecifiers'') = Inr static
         \<and> spreadSpecifiers (jget (the (map_of (files idx) p)) ''dynamicImportSpecifiers'') = Inr dynamic
         \<and> sorted (local d) \<and> sorted (localUnresolved d) \<and> sorted (external d)
         \<and> set (local d) = {r. LOCAL r \<in> classifyIn W p ` set (static @ dynamic)}
         \<and> set (localUnresolved d) = {s. LOCAL_UNRESOLVED s \<in> classifyIn W p ` set (static @ dynamic)}
         \<and> set (external d) = {n. EXTERNAL n \<in> classifyIn W p ` set (static @ dynamic)}
         \<and> length (local d) + length (localUnresolved d) + length (external d)
             = length static + length dynamic"
proof -
  let ?rules = "readTsconfigPaths W (process_cwd W)"
  from assms(1) obtain tracked nextFiles g where
    fs: "indexFiles W ?rules
       (filter (\<lambda>p. path_extname (node_path W) p \<in> set SOURCE_EXTENSIONS) tracked) [] = Inr nextFiles"
    and bg: "buildGraph W ?rules nextFiles (map fst nextFiles)
       \<lparr>deps = [], reverseDeps = map (\<lambda>p. (p, [])) (map fst nextFiles)\<rparr> = Inr g"
    and idx: "files idx = nextFiles" "graph idx = sortReverse g"
    by (rule generateIndex_parts)
  from indexFiles_keys [OF fs] have keys: "distinct (map fst nextFiles)" by simp
  from generateIndex_graph [OF assms(1)] assms(2) have "p \<in> set (map fst nextFiles)"
    by (auto simp: idx(1))
  from buildGraph_deps [OF bg keys this] obtain raw where
    raw: "rawSpecifiers (the (map_of nextFiles p)) = Inr raw"
    and dp: "map_of (deps g) p = Some (fileDeps W ?rules p raw)"
    by blast
  have d: "d = fileDeps W ?rules p raw"
    using assms(2) dp by (simp add: idx(2) sortReverse_def)
  from rawSpecifiers_both [OF raw] obtain static dynamic where
    sd: "spreadSpecifiers (jget (the (map_of nextFiles p)) ''importSpecifiers'') = Inr static"
      "spreadSpecifiers (jget (the (map_of nextFiles p)) ''dynamicImportSpecifiers'') = Inr dynamic"
      "raw = static @ dynamic"
    by blast
  have props: "sorted (local d) \<and> sorted (localUnresolved d) \<and> sorted (external d)
         \<and> set (local d) = {r. LOCAL r \<in> classifyIn W p ` set (static @ dynamic)}
         \<and> set (localUnresolved d) = {s. LOCAL_UNRESOLVED s \<in> classifyIn W p ` set (static @ dynamic)}
         \<and> set (external d) = {n. EXTERNAL n \<in> classifyIn W p ` set (static @ dynamic)}
         \<and> length (local d) + length (localUnresolved d) + length (external d)
             = length static + length dynamic"
    using fileDeps_properties [of W ?rules p raw]
    unfolding d classifyIn_def sd(3) by (simp only: length_append)
  from sd(1,2) props show ?thesis
    unfolding idx(1) by blast
qed

text \<open>
  Claim C4, as stated: the three lists are deduplicated.  In the small repository
  \<open>pages/home.tsx\<close> imports \<open>lodash/a\<close> and \<open>lodash/b\<close>, and its
  \<open>external\<close> list holds \<open>lodash\<close> twice.
\<close>

theorem graph_lists_duplicates_counterexample:
  "generateIndex demoPlatform = Inr demoIndex
   \<and> map_of (deps (graph demoIndex)) ''pages/home.tsx''
       = Some \<lparr>local = [''utils/fmt.ts''], localUnresolved = [], external = [''lodash'', ''lodash'']\<rparr>
   \<and> \<not> distinct (external (the (map_of (deps (graph demoIndex)) ''pages/home.tsx'')))"
  using demo_run by (simp add: demoIndex_def)

text \<open>An instance of the amended claim: the three specifiers of \<open>pages/home.tsx\<close>.\<close>

theorem graph_lists_sorted_merged_witness:
  "generateIndex demoPlatform = Inr demoIndex
   \<and> map_of (deps (graph demoIndex)) ''pages/home.tsx''
       = Some \<lparr>local = [''utils/fmt.ts''], localUnresolved = [], external = [''lodash'', ''lodash'']\<rparr>
   \<and> (\<exists>static dynamic.
         spreadSpecifiers (jget (the (map_of (files demoIndex) ''pages/home.tsx'')) ''importSpecifiers'') = Inr static
       \<and> spreadSpecifiers (jget (the (map_of (files demoIndex) ''pages/home.tsx'')) ''dynamicImportSpecifiers'') = Inr dynamic
       \<and> length static + length dynamic = 3)"
proof -
  have d: "map_of (deps (graph demoIndex)) ''pages/home.tsx''
       = Some \<lparr>local = [''utils/fmt.ts''], localUnresolved = [], external = [''lodash'', ''lodash'']\<rparr>"
    by (simp add: demoIndex_def)
  from graph_lists_sorted_merged [OF demo_run d] obtain static dynamic where
    s: "spreadSpecifiers (jget (the (map_of (files demoIndex) ''pages/home.tsx'')) ''importSpecifiers'') = Inr static"
    and t: "spreadSpecifiers (jget (the (map_of (files demoIndex) ''pages/home.tsx'')) ''dynamicImportSpecifiers'') = Inr dynamic"
    and n: "length (local \<lparr>local = [''utils/fmt.ts''], localUnresolved = [], external = [''lodash'', ''lodash'']\<rparr>)
        + length (localUnresolved \<lparr>local = [''utils/fmt.ts''], localUnresolved = [], external = [''lodash'', ''lodash'']\<rparr>)
        + length (external \<lparr>local = [''utils/fmt.ts''], localUnresolved = [], external = [''lodash'', ''lodash'']\<rparr>)
        = length static + length dynamic"
    by blast
  from n have "length static + length dynamic = 3" by simp
  with s t demo_run d show ?thesis by blast
qed

section \<open>Loading the alias configuration\<close>

lemma readTsconfigPaths_unfold:
  "readTsconfigPaths W root =
     (case configText W root of
        Throws \<Rightarrow> []
      | Returns None \<Rightarrow> []
      | Returns (Some text) \<Rightarrow>
          if text = [] then []
          else (case configParsed W root text of
                  Throws \<Rightarrow> []
                | Returns parsed \<Rightarrow>
                    (case oget (oget (config parsed) ''compilerOptions'') ''paths'' of
                       None \<Rightarrow> []
                     | Some paths \<Rightarrow>
                         if \<not> jtruthy paths \<or> \<not> typeofObject paths then []
                         else [\<lparr>pattern = k, targets = vs\<rparr>. (k, JArr vs) \<leftarrow> objectEntries paths])))"
  by (simp add: readTsconfigPaths_def readTsconfigPaths_try_def configText_def configParsed_def
      tsconfigPath_def truthy_def Let_def split: outcome.splits option.splits)

text \<open>
  Claim C9, amended.  Loading the alias configuration never raises: whatever is thrown while
  reading or parsing is caught and gives the empty rule set.  The rule set is empty as well
  when the file is missing or empty, and when the parser delivers no
  \<open>compilerOptions.paths\<close> or delivers one that is falsy or not of type object.  The
  syntax diagnostic of the parser is not consulted: when it delivers a \<open>paths\<close>
  object, the rules are the entries of that object whose value is an array.
\<close>

theorem readTsconfigPaths_recovers:
  "(readTsconfigPaths_try W root = Throws \<longrightarrow> readTsconfigPaths W root = [])
   \<and> (configMissing W root \<longrightarrow> readTsconfigPaths W root = [])
   \<and> (configText W root = Throws \<or> configText W root = Returns (Some []) \<longrightarrow>
        readTsconfigPaths W root = [])
   \<and> (\<forall>text. configText W root = Returns (Some text) \<and> configParsed W root text = Throws \<longrightarrow>
        readTsconfigPaths W root = [])
   \<and> (configPaths W root = None \<longrightarrow> readTsconfigPaths W root = [])
   \<and> (\<forall>paths. configPaths W root = Some paths \<and> (\<not> jtruthy paths \<or> \<not> typeofObject paths) \<longrightarrow>
        readTsconfigPaths W root = [])
   \<and> (\<forall>text kvs. text \<noteq> [] \<and> configText W root = Returns (Some text)
          \<and> configPaths W root = Some (JObj kvs) \<longrightarrow>
        readTsconfigPaths W root = [\<lparr>pattern = k, targets = vs\<rparr>. (k, JArr vs) \<leftarrow> kvs])"
proof -
  have 1: "readTsconfigPaths_try W root = Throws \<longrightarrow> readTsconfigPaths W root = []"
    by (simp add: readTsconfigPaths_def)
  have 2: "configMissing W root \<longrightarrow> readTsconfigPaths W root = []"
    by (simp add: readTsconfigPaths_unfold configMissing_def)
  have 3: "configText W root = Throws \<or> configText W root = Returns (Some []) \<longrightarrow>
        readTsconfigPaths W root = []"
    by (auto simp: readTsconfigPaths_unfold)
  have 4: "\<forall>text. configText W root = Returns (Some text) \<and> configParsed W root text = Throws \<longrightarrow>
        readTsconfigPaths W root = []"
    by (simp add: readTsconfigPaths_unfold)
  have 5: "configPaths W root = None \<longrightarrow> readTsconfigPaths W root = []"
    by (simp add: readTsconfigPaths_unfold configPaths_def split: outcome.splits option.splits)
  have 6: "\<forall>paths. configPaths W root = Some paths \<and> (\<not> jtruthy paths \<or> \<not> typeofObject paths) \<longrightarrow>
        readTsconfigPaths W root = []"
    by (auto simp: readTsconfigPaths_unfold configPaths_def split: outcome.splits option.splits)
  have 7: "\<forall>text kvs. text \<noteq> [] \<and> configText W root = Returns (Some text)
          \<and> configPaths W root = Some (JObj kvs) \<longrightarrow>
        readTsconfigPaths W root = [\<lparr>pattern = k, targets = vs\<rparr>. (k, JArr vs) \<leftarrow> kvs]"
    by (auto simp: readTsconfigPaths_unfold configPaths_def objectEntries_def
        split: outcome.splits option.splits)
  from 1 2 3 4 5 6 7 show ?thesis by blast
qed

text \<open>
  Claim C9, as stated: a malformed configuration yields the empty rule set.  A file without
  its closing brace, for which the parser reports the error and delivers the object it
  read, yields the rule of that object; a file whose \<open>paths\<close> is an array of arrays
  yields a rule for the index \<open>0\<close>.
\<close>

theorem readTsconfigPaths_malformed_counterexample:
  "configMalformed lenientParsePlatform ''/repo''
   \<and> readTsconfigPaths lenientParsePlatform ''/repo''
       = [\<lparr>pattern = ''@/*'', targets = [JStr ''./src/*'']\<rparr>]
   \<and> readTsconfigPaths arrayPathsPlatform ''/repo''
       = [\<lparr>pattern = ''0'', targets = [JStr ''x/*'']\<rparr>]"
  by code_simp

text \<open>
  Instances: no configuration file; a parser that throws; a parser that delivers a
  \<open>paths\<close> object together with a diagnostic.
\<close>

theorem readTsconfigPaths_recovers_witness:
  "configMissing demoPlatform ''/repo'' \<and> readTsconfigPaths demoPlatform ''/repo'' = []
   \<and> readTsconfigPaths_try throwingParsePlatform ''/repo'' = Throws
   \<and> readTsconfigPaths throwingParsePlatform ''/repo'' = []
   \<and> configPaths lenientParsePlatform ''/repo'' = Some (JObj [(''@/*'', JArr [JStr ''./src/*''])])
   \<and> readTsconfigPaths lenientParsePlatform ''/repo''
       = [\<lparr>pattern = ''@/*'', targets = [JStr ''./src/*'']\<rparr>]"
proof -
  have m: "configMissing demoPlatform ''/repo''"
    by (simp add: configMissing_def configText_def demoPlatform_def)
  have t: "readTsconfigPaths_try throwingParsePlatform ''/repo'' = Throws"
    by (simp add: readTsconfigPaths_try_def throwingParsePlatform_def demoPlatform_def truthy_def)
  have c: "configText lenientParsePlatform ''/repo''
      = Returns (Some ''{\"compilerOptions\":{\"paths\":{\"@/*\":[\"./src/*\"]}}'')"
    by (simp add: configText_def lenientParsePlatform_def demoPlatform_def)
  have p: "configPaths lenientParsePlatform ''/repo'' = Some (JObj [(''@/*'', JArr [JStr ''./src/*''])])"
    by (simp add: configPaths_def c) (simp add: configParsed_def lenientParsePlatform_def oget_def jget_def)
  note th = readTsconfigPaths_recovers
  have "readTsconfigPaths demoPlatform ''/repo'' = []"
    using th [of demoPlatform "''/repo''"] m by blast
  moreover have "readTsconfigPaths throwingParsePlatform ''/repo'' = []"
    using th [of throwingParsePlatform "''/repo''"] t by blast
  moreover have "readTsconfigPaths lenientParsePlatform ''/repo''
       = [\<lparr>pattern = k, targets = vs\<rparr>. (k, JArr vs) \<leftarrow> [(''@/*'', JArr [JStr ''./src/*''])]]"
    using th [of lenientParsePlatform "''/repo''"] c p by blast
  ultimately show ?thesis using m t p by simp
qed

section \<open>The capped extraction of the semantic tagger\<close>

lemma jsSetAdd_member: "x \<in> set s \<Longrightarrow> jsSetAdd s x = s"
  by (simp add: jsSetAdd_def)

lemma jsSetAdd_new: "x \<notin> set s \<Longrightarrow> jsSetAdd s x = s @ [x]"
  by (simp add: jsSetAdd_def)

lemma foldl_jsSetAdd_prefix: "\<exists>zs. foldl jsSetAdd acc xs = acc @ zs"
proof (induction xs arbitrary: acc)
  case Nil
  show ?case by simp
next
  case (Cons x xs)
  from Cons [of "jsSetAdd acc x"] obtain zs where "foldl jsSetAdd (jsSetAdd acc x) xs = jsSetAdd acc x @ zs"
    by blast
  then show ?case by (cases "x \<in> set acc") (auto simp: jsSetAdd_member jsSetAdd_new)
qed

lemma set_jsSetAdd: "set (jsSetAdd s x) = insert x (set s)"
  by (auto simp: jsSetAdd_def)

lemma distinct_jsSetAdd: "distinct s \<Longrightarrow> distinct (jsSetAdd s x)"
  by (auto simp: jsSetAdd_def)

lemma set_foldl_jsSetAdd: "set (foldl jsSetAdd acc xs) = set acc \<union> set xs"
  by (induction xs arbitrary: acc) (auto simp: set_jsSetAdd)

lemma distinct_foldl_jsSetAdd: "distinct acc \<Longrightarrow> distinct (foldl jsSetAdd acc xs)"
  by (induction xs arbitrary: acc) (auto simp: distinct_jsSetAdd)

lemma jsSetOf_distinct_id: "distinct xs \<Longrightarrow> foldl jsSetAdd acc xs = acc @ filter (\<lambda>x. x \<notin> set acc) xs"
proof (induction xs arbitrary: acc)
  case Nil
  show ?case by simp
next
  case (Cons x xs)
  then have d: "distinct xs" and nx: "x \<notin> set xs" by simp_all
  show ?case
  proof (cases "x \<in> set acc")
    case True
    with Cons.IH [OF d, of acc] show ?thesis by (simp add: jsSetAdd_member)
  next
    case False
    have "filter (\<lambda>y. y \<notin> set (acc @ [x])) xs = filter (\<lambda>y. y \<notin> set acc) xs"
      using nx by (intro filter_cong) auto
    with False Cons.IH [OF d, of "acc @ [x]"] show ?thesis by (simp add: jsSetAdd_new)
  qed
qed

lemma length_jsSetOf: "length (jsSetOf xs) = card (set xs)"
proof -
  have "distinct (jsSetOf xs)" and "set (jsSetOf xs) = set xs"
    by (simp_all add: jsSetOf_def distinct_foldl_jsSetAdd set_foldl_jsSetAdd)
  then show ?thesis by (metis distinct_card)
qed

lemma collectCapped_foldl:
  "length acc < cap \<Longrightarrow>
     collectCapped cap keep vs acc = take cap (foldl jsSetAdd acc (kept keep vs))"
proof (induction vs arbitrary: acc)
  case Nil
  then show ?case by (simp add: kept_def)
next
  case (Cons v vs)
  show ?case
  proof (cases "v \<noteq> [] \<and> keep v")
    case False
    with Cons show ?thesis by (auto simp: kept_def Let_def)
  next
    case True
    show ?thesis
    proof (cases "v \<in> set acc")
      case inacc: True
      with True Cons show ?thesis by (simp add: kept_def Let_def jsSetAdd_member)
    next
      case notin: False
      show ?thesis
      proof (cases "Suc (length acc) < cap")
        case True
        with \<open>v \<noteq> [] \<and> keep v\<close> notin Cons.IH [of "acc @ [v]"] show ?thesis
          by (simp add: kept_def Let_def jsSetAdd_new)
      next
        case False
        with Cons.prems have full: "length (acc @ [v]) = cap" by simp
        obtain zs where "foldl jsSetAdd (acc @ [v]) (kept keep vs) = (acc @ [v]) @ zs"
          using foldl_jsSetAdd_prefix by blast
        then have "take cap (foldl jsSetAdd (acc @ [v]) (kept keep vs)) = acc @ [v]"
          using full by (metis append_eq_conv_conj)
        with \<open>v \<noteq> [] \<and> keep v\<close> notin full show ?thesis
          by (simp add: kept_def Let_def jsSetAdd_new)
      qed
    qed
  qed
qed

lemma collectCapped_take:
  "0 < cap \<Longrightarrow> collectCapped cap keep vs [] = take cap (jsSetOf (kept keep vs))"
  by (simp add: collectCapped_foldl jsSetOf_def)

lemma length_collectCapped:
  "0 < cap \<Longrightarrow> length (collectCapped cap keep vs []) = min cap (card (set (kept keep vs)))"
  by (simp add: collectCapped_take length_jsSetOf min.commute)

lemma semantic_lists:
  "apiEndpoints (extractSemanticFromText P text fp ds) = sort (collectCapped 25 isEndpoint (apiMatches text) [])"
  "storageKeys (extractSemanticFromText P text fp ds) = sort (collectCapped 25 (\<lambda>k. True) (storageMatches text) [])"
  "envVars (extractSemanticFromText P text fp ds) = sort (collectCapped 40 (\<lambda>k. True) (envMatches False text) [])"
  by (simp_all add: extractSemanticFromText_def Let_def)

lemma startsWith_api_split: "startsWith l ''/api/'' \<Longrightarrow> l = ''/api/'' @ drop 5 l"
proof -
  assume a: "startsWith l ''/api/''"
  have len: "length ''/api/'' = (5::nat)" by simp
  from a have "take (length ''/api/'') l = ''/api/''" unfolding startsWith_def .
  then have "take 5 l = ''/api/''" unfolding len .
  with append_take_drop_id [of 5 l] show ?thesis by metis
qed

lemma length_takeWhile_less: "x \<in> set xs \<Longrightarrow> \<not> Q x \<Longrightarrow> length (takeWhile Q xs) < length xs"
  by (induction xs) auto

lemma apiMatchHere_nonquote: "\<not> isQuote c \<Longrightarrow> apiMatchHere (c # s) = None"
  by (simp add: apiMatchHere_def)

lemma apiMatches_skip: "list_all (\<lambda>c. \<not> isQuote c) pre \<Longrightarrow> apiMatches (pre @ s) = apiMatches s"
  by (induction pre) (simp_all add: apiMatchHere_nonquote)

lemma not_apiChar_dquote: "\<not> apiChar (CHR 0x22)"
  by (simp add: apiChar_def isLower_def isUpper_def isDigit_def)

lemma backtrackTo_hit: "0 < n \<Longrightarrow> n < length u \<Longrightarrow> u ! n = q \<Longrightarrow> backtrackTo q u n = Some n"
  by (cases n) simp_all

lemma backtrackTo_none:
  "(\<forall>k. 0 < k \<and> k \<le> n \<and> k < length u \<longrightarrow> u ! k \<noteq> q) \<Longrightarrow> backtrackTo q u n = None"
  by (induction n) auto

lemma urlBody_slash: "urlBody q (CHR ''/'' # t) = None"
  by (simp add: urlBody_def startsWith_def)

lemma apiBody_plain:
  assumes "b \<noteq> []" and "list_all apiChar b"
  shows "apiBody (CHR 0x22) (''/api/'' @ b @ CHR 0x22 # rest) = Some (''/api/'' @ b)"
proof -
  let ?u = "b @ CHR 0x22 # rest"
  have run: "takeWhile apiChar ?u = b"
    using assms(2) not_apiChar_dquote by (simp add: list_all_iff)
  have "backtrackTo (CHR 0x22) ?u (length b) = Some (length b)"
    using assms(1) by (intro backtrackTo_hit) simp_all
  with run show ?thesis
    by (simp add: apiBody_def startsWith_def)
qed

lemma apiMatches_plain:
  assumes "b \<noteq> []" and "list_all apiChar b"
  shows "apiMatches (CHR 0x22 # ''/api/'' @ b @ CHR 0x22 # rest) = (''/api/'' @ b) # apiMatches rest"
proof -
  define s where "s = ''/api/'' @ b @ CHR 0x22 # rest"
  have "apiMatchHere (CHR 0x22 # ''/api/'' @ b @ CHR 0x22 # rest) = Some (''/api/'' @ b, length b + 7)"
    using apiBody_plain [OF assms, of rest] urlBody_slash
    by (simp add: apiMatchHere_def isQuote_def)
  then have m: "apiMatchHere (CHR 0x22 # s) = Some (''/api/'' @ b, length b + 7)"
    by (simp only: s_def)
  have "length b + 7 - 1 = length (''/api/'' @ b @ [CHR 0x22])" by simp
  moreover have "s = (''/api/'' @ b @ [CHR 0x22]) @ rest" by (simp add: s_def)
  ultimately have d: "drop (length b + 7 - 1) s = rest"
    by (metis append_eq_conv_conj)
  have "apiMatches (CHR 0x22 # s) = (''/api/'' @ b) # apiMatches rest"
    by (simp only: apiMatches.simps m option.case prod.case d)
  then show ?thesis by (simp only: s_def)
qed

lemma fetchCalls_Cons: "fetchCalls (l # ls) = ''fetch('' @ CHR 0x22 # l @ CHR 0x22 # '');'' @ fetchCalls ls"
  by (simp add: fetchCalls_def)

lemma apiMatches_fetchCalls_plain:
  "list_all plainApiLiteral ls \<Longrightarrow> apiMatches (fetchCalls ls) = ls"
proof (induction ls)
  case Nil
  show ?case by (simp add: fetchCalls_def)
next
  case (Cons l ls)
  then have l: "plainApiLiteral l" and ls: "list_all plainApiLiteral ls" by simp_all
  define b where "b = drop 5 l"
  from l have lb: "l = ''/api/'' @ b"
    unfolding b_def by (intro startsWith_api_split) (simp add: plainApiLiteral_def)
  from l have b: "b \<noteq> []" "list_all apiChar b"
    by (simp_all add: plainApiLiteral_def b_def)
  have skip: "apiMatches (''fetch('' @ X) = apiMatches X" for X
    by (rule apiMatches_skip) (simp add: isQuote_def)
  have "fetchCalls (l # ls) = ''fetch('' @ (CHR 0x22 # l @ CHR 0x22 # '');'' @ fetchCalls ls)"
    by (simp add: fetchCalls_Cons)
  then have "apiMatches (fetchCalls (l # ls))
      = apiMatches (CHR 0x22 # l @ CHR 0x22 # '');'' @ fetchCalls ls)"
    by (simp only: skip)
  then have "apiMatches (fetchCalls (l # ls))
      = apiMatches (CHR 0x22 # ''/api/'' @ b @ CHR 0x22 # '');'' @ fetchCalls ls)"
    using lb by (simp only: append_assoc)
  also have "\<dots> = (''/api/'' @ b) # apiMatches ('');'' @ fetchCalls ls)"
    by (rule apiMatches_plain [OF b])
  also have "apiMatches ('');'' @ fetchCalls ls) = apiMatches (fetchCalls ls)"
    by (rule apiMatches_skip) (simp add: isQuote_def)
  finally show ?case using Cons.IH [OF ls] lb by simp
qed

lemma apiBody_query:
  assumes "list_all (\<lambda>c. \<not> isQuote c) u" and "\<not> list_all apiChar u"
  shows "apiBody (CHR 0x22) (''/api/'' @ u @ CHR 0x22 # rest) = None"
proof -
  let ?u = "u @ CHR 0x22 # rest"
  from assms(2) obtain x where x: "x \<in> set u" "\<not> apiChar x"
    by (auto simp: list_all_iff)
  then have run: "takeWhile apiChar ?u = takeWhile apiChar u"
    by (rule takeWhile_append1)
  have short: "length (takeWhile apiChar u) < length u"
    using x by (rule length_takeWhile_less)
  have "backtrackTo (CHR 0x22) ?u (length (takeWhile apiChar u)) = None"
  proof (rule backtrackTo_none, intro allI impI)
    fix k assume "0 < k \<and> k \<le> length (takeWhile apiChar u) \<and> k < length ?u"
    with short have k: "k < length u" by simp
    then have "?u ! k = u ! k" by (simp add: nth_append)
    moreover have "\<not> isQuote (u ! k)"
      using assms(1) k by (simp add: list_all_length)
    ultimately show "?u ! k \<noteq> CHR 0x22" by (auto simp: isQuote_def)
  qed
  with run show ?thesis
    by (simp add: apiBody_def startsWith_def)
qed

lemma apiMatches_query:
  assumes "list_all (\<lambda>c. \<not> isQuote c) u" and "\<not> list_all apiChar u"
  shows "apiMatches (CHR 0x22 # ''/api/'' @ u @ CHR 0x22 # '');'' @ rest) = apiMatches rest"
proof -
  have "apiMatchHere (CHR 0x22 # ''/api/'' @ u @ CHR 0x22 # '');'' @ rest) = None"
    using apiBody_query [OF assms, of "'');'' @ rest"] urlBody_slash
    by (simp add: apiMatchHere_def isQuote_def)
  then have "apiMatches (CHR 0x22 # ''/api/'' @ u @ CHR 0x22 # '');'' @ rest)
      = apiMatches ((''/api/'' @ u) @ CHR 0x22 # '');'' @ rest)"
    by simp
  also have "\<dots> = apiMatches (CHR 0x22 # '');'' @ rest)"
    by (rule apiMatches_skip) (use assms(1) in \<open>simp add: isQuote_def\<close>)
  also have "\<dots> = apiMatches ('');'' @ rest)"
    by (simp add: apiMatchHere_def isQuote_def urlBody_def apiBody_def startsWith_def)
  also have "\<dots> = apiMatches rest"
    by (rule apiMatches_skip) (simp add: isQuote_def)
  finally show ?thesis .
qed

lemma apiMatches_fetchCalls_query:
  "list_all queryApiLiteral ls \<Longrightarrow> apiMatches (fetchCalls ls) = []"
proof (induction ls)
  case Nil
  show ?case by (simp add: fetchCalls_def)
next
  case (Cons l ls)
  then have l: "queryApiLiteral l" and ls: "list_all queryApiLiteral ls" by simp_all
  define u where "u = drop 5 l"
  from l have lu: "l = ''/api/'' @ u"
    unfolding u_def by (intro startsWith_api_split) (simp add: queryApiLiteral_def)
  from l have "list_all (\<lambda>c. \<not> isQuote c) l" by (simp add: queryApiLiteral_def)
  then have "\<forall>c \<in> set l. \<not> isQuote c" by (simp add: list_all_iff)
  then have "\<forall>c \<in> set u. \<not> isQuote c" unfolding u_def by (meson in_set_dropD)
  then have u1: "list_all (\<lambda>c. \<not> isQuote c) u" by (simp add: list_all_iff)
  from l have u2: "\<not> list_all apiChar u" by (simp add: queryApiLiteral_def u_def)
  note u = u1 u2
  have skip: "apiMatches (''fetch('' @ X) = apiMatches X" for X
    by (rule apiMatches_skip) (simp add: isQuote_def)
  have "fetchCalls (l # ls) = ''fetch('' @ (CHR 0x22 # l @ CHR 0x22 # '');'' @ fetchCalls ls)"
    by (simp add: fetchCalls_Cons)
  then have "apiMatches (fetchCalls (l # ls))
      = apiMatches (CHR 0x22 # l @ CHR 0x22 # '');'' @ fetchCalls ls)"
    by (simp only: skip)
  then have "apiMatches (fetchCalls (l # ls))
      = apiMatches (CHR 0x22 # ''/api/'' @ u @ CHR 0x22 # '');'' @ fetchCalls ls)"
    using lu by (simp only: append_assoc)
  also have "\<dots> = apiMatches (fetchCalls ls)"
    by (rule apiMatches_query [OF u])
  finally show ?case using Cons.IH [OF ls] by simp
qed

lemma kept_plain: "list_all plainApiLiteral ls \<Longrightarrow> kept isEndpoint ls = ls"
proof -
  assume "list_all plainApiLiteral ls"
  then have "\<forall>l \<in> set ls. l \<noteq> [] \<and> isEndpoint l"
    by (auto simp: list_all_iff plainApiLiteral_def isEndpoint_def startsWith_def)
  then show ?thesis by (simp add: kept_def)
qed

lemma jsSetOf_distinct: "distinct xs \<Longrightarrow> jsSetOf xs = xs"
  using jsSetOf_distinct_id [of xs "[]"] by (simp add: jsSetOf_def)

text \<open>
  Claim C8, amended.  For every file, the endpoints recorded are the first 25 distinct
  values among the matches of the endpoint pattern (in the order of the text, sorted
  afterwards), the storage keys the first 25 distinct matches of the storage pattern, the
  environment identifiers the first 40 distinct matches of the environment pattern: each
  loop stops at its cap, and the number recorded is the smaller of the cap and the number
  of distinct matches.  In particular, a text made of one call \<open>fetch("L")\<close> for each
  of at least 25 (for instance 40) distinct literals \<open>L\<close>, each \<open>/api/\<close> followed by
  a non-empty run of the pattern's path characters, yields exactly 25 endpoints, the first
  25 literals.  A text made of such calls for literals that leave the pattern's path
  characters (and hold no quote) yields no endpoint.
\<close>

theorem extraction_caps:
  "apiEndpoints (extractSemanticFromText P text fp ds)
     = sort (take 25 (jsSetOf (kept isEndpoint (apiMatches text))))
   \<and> storageKeys (extractSemanticFromText P text fp ds)
     = sort (take 25 (jsSetOf (kept (\<lambda>k. True) (storageMatches text))))
   \<and> envVars (extractSemanticFromText P text fp ds)
     = sort (take 40 (jsSetOf (kept (\<lambda>k. True) (envMatches False text))))
   \<and> length (apiEndpoints (extractSemanticFromText P text fp ds))
     = min 25 (card (set (kept isEndpoint (apiMatches text))))
   \<and> length (storageKeys (extractSemanticFromText P text fp ds))
     = min 25 (card (set (kept (\<lambda>k. True) (storageMatches text))))
   \<and> length (envVars (extractSemanticFromText P text fp ds))
     = min 40 (card (set (kept (\<lambda>k. True) (envMatches False text))))
   \<and> (list_all plainApiLiteral ls \<and> distinct ls \<and> 25 \<le> length ls \<longrightarrow>
        apiEndpoints (extractSemanticFromText P (fetchCalls ls) fp ds) = sort (take 25 ls)
        \<and> length (apiEndpoints (extractSemanticFromText P (fetchCalls ls) fp ds)) = 25)
   \<and> (list_all queryApiLiteral ls \<longrightarrow>
        apiEndpoints (extractSemanticFromText P (fetchCalls ls) fp ds) = [])"
proof -
  have a: "apiEndpoints (extractSemanticFromText P t fp ds)
     = sort (take 25 (jsSetOf (kept isEndpoint (apiMatches t))))" for t
    by (simp add: semantic_lists collectCapped_take)
  have s: "storageKeys (extractSemanticFromText P text fp ds)
     = sort (take 25 (jsSetOf (kept (\<lambda>k. True) (storageMatches text))))"
    by (simp add: semantic_lists collectCapped_take)
  have e: "envVars (extractSemanticFromText P text fp ds)
     = sort (take 40 (jsSetOf (kept (\<lambda>k. True) (envMatches False text))))"
    by (simp add: semantic_lists collectCapped_take)
  have la: "length (apiEndpoints (extractSemanticFromText P text fp ds))
     = min 25 (card (set (kept isEndpoint (apiMatches text))))"
    by (simp add: semantic_lists length_collectCapped)
  have lb: "length (storageKeys (extractSemanticFromText P text fp ds))
     = min 25 (card (set (kept (\<lambda>k. True) (storageMatches text))))"
    by (simp add: semantic_lists length_collectCapped)
  have le: "length (envVars (extractSemanticFromText P text fp ds))
     = min 40 (card (set (kept (\<lambda>k. True) (envMatches False text))))"
    by (simp add: semantic_lists length_collectCapped)
  have lit: "apiEndpoints (extractSemanticFromText P (fetchCalls ls) fp ds) = sort (take 25 ls)
        \<and> length (apiEndpoints (extractSemanticFromText P (fetchCalls ls) fp ds)) = 25"
    if "list_all plainApiLiteral ls \<and> distinct ls \<and> 25 \<le> length ls"
  proof -
    from that have "jsSetOf (kept isEndpoint (apiMatches (fetchCalls ls))) = ls"
      by (simp add: apiMatches_fetchCalls_plain kept_plain jsSetOf_distinct)
    with that show ?thesis by (simp add: a)
  qed
  have qry: "apiEndpoints (extractSemanticFromText P (fetchCalls ls) fp ds) = []"
    if "list_all queryApiLiteral ls"
    using that by (simp add: semantic_lists apiMatches_fetchCalls_query)
  from a [of "text"] s e la lb le lit qry show ?thesis by blast
qed

lemma plainLiterals_facts:
  "list_all plainApiLiteral plainLiterals \<and> distinct plainLiterals \<and> length plainLiterals = 40"
  by code_simp

lemma queryLiterals_facts:
  "list_all queryApiLiteral queryLiterals \<and> distinct queryLiterals \<and> length queryLiterals = 40
   \<and> list_all (\<lambda>l. startsWith l ''/api/'') queryLiterals"
  by code_simp

text \<open>
  Instances: the forty literals \<open>/api/e1\<close> to \<open>/api/e40\<close>, and the forty
  literals with a query string.
\<close>

theorem extraction_caps_witness:
  "list_all plainApiLiteral plainLiterals \<and> distinct plainLiterals \<and> length plainLiterals = 40
   \<and> length (apiEndpoints (extractSemanticFromText posixPath (fetchCalls plainLiterals)
        ''utils/api.ts'' [])) = 25
   \<and> list_all queryApiLiteral queryLiterals
   \<and> apiEndpoints (extractSemanticFromText posixPath (fetchCalls queryLiterals)
        ''utils/api.ts'' []) = []"
proof -
  note f = plainLiterals_facts
  then have "list_all plainApiLiteral plainLiterals \<and> distinct plainLiterals
      \<and> 25 \<le> length plainLiterals"
    by simp
  with extraction_caps [of posixPath "[]" "''utils/api.ts''" "[]" plainLiterals]
  have "length (apiEndpoints (extractSemanticFromText posixPath (fetchCalls plainLiterals)
        ''utils/api.ts'' [])) = 25"
    by blast
  moreover have q: "list_all queryApiLiteral queryLiterals"
    using queryLiterals_facts by blast
  moreover from extraction_caps [of posixPath "[]" "''utils/api.ts''" "[]" queryLiterals] q
  have "apiEndpoints (extractSemanticFromText posixPath (fetchCalls queryLiterals)
        ''utils/api.ts'' []) = []"
    by blast
  ultimately show ?thesis using f by blast
qed

text \<open>
  Claim C8, as stated: every file whose text contains 40 distinct \<open>/api/...\<close> string
  literals yields exactly 25 endpoints.  The forty literals \<open>/api/u?id=1\<close> to
  \<open>/api/u?id=40\<close> carry a question mark, which is no path character of the pattern:
  none of them is matched and no endpoint is recorded.
\<close>

theorem extraction_caps_counterexample:
  "length queryLiterals = 40 \<and> distinct queryLiterals
   \<and> list_all (\<lambda>l. startsWith l ''/api/'') queryLiterals
   \<and> apiEndpoints (extractSemanticFromText posixPath (fetchCalls queryLiterals)
        ''utils/api.ts'' []) = []"
proof -
  note f = queryLiterals_facts
  then have "apiMatches (fetchCalls queryLiterals) = []"
    by (intro apiMatches_fetchCalls_query) blast
  then have "apiEndpoints (extractSemanticFromText posixPath (fetchCalls queryLiterals)
        ''utils/api.ts'' []) = []"
    by (simp add: semantic_lists)
  with f show ?thesis by blast
qed

section \<open>The two caches\<close>







section \<open>Two consecutive runs\<close>

subsection \<open>The index generator\<close>















subsection \<open>The digests and the description synthesizer\<close>





















subsection \<open>The pipeline\<close>




end
